theory Spec2Isabelle
  imports Complex_Main "HOL-Library.AList"
begin

section \<open>Semantic-similarity rating: the scoring engine\<close>

text \<open>
  A shallow embedding of \<^verbatim>\<open>src/ssr/scorer.ts\<close>, \<^verbatim>\<open>src/ssr/score-answers.ts\<close> and the
  \<^verbatim>\<open>embed\<close> method of \<^verbatim>\<open>src/ssr/voyage-provider.ts\<close>.

  JavaScript numbers are IEEE-754 doubles; here a finite number is a \<^typ>\<open>real\<close>, so
  rounding, overflow and underflow are abstracted away.  The one place where the source can
  compute with \<^verbatim>\<open>undefined\<close> (reading a distribution past its end while averaging) is kept:
  the result is the value \<open>NaN\<close> of the type \<open>number\<close> below.  Division by zero is
  \<open>0\<close> in HOL and \<open>Infinity\<close> or \<open>NaN\<close> in JavaScript; the theorems exclude it by their
  hypotheses (\<open>temperature > 0\<close>, \<open>epsilon \<ge> 0\<close>).

  An \<^verbatim>\<open>async\<close> method is a state transformer: every \<^verbatim>\<open>await\<close> is sequential, so the
  provider's state and the scorer's cache are passed along explicitly.  A thrown
  \<^verbatim>\<open>Error\<close> (or a rejected promise) is the left injection of a sum.
\<close>

subsection \<open>Errors\<close>

text \<open>
  The source throws plain \<^verbatim>\<open>Error\<close> objects told apart by their message:
  \<^item> \<open>DimensionMismatch\<close>: "Vectors must have the same length";
  \<^item> \<open>UnknownQuestionType q\<close>: "No anchor sets defined for question type: q";
  \<^item> \<open>NoAnchorSetFound q i\<close>: "No anchor set found for q at index i";
  \<^item> \<open>TypeError\<close>: the runtime's error for reading \<^verbatim>\<open>.length\<close> of \<^verbatim>\<open>undefined\<close>;
  \<^item> \<open>ProviderError m\<close>: whatever the embedding provider rejects with.
\<close>

datatype error =
    DimensionMismatch
  | UnknownQuestionType string
  | NoAnchorSetFound string nat
  | TypeError
  | ProviderError string

subsection \<open>Vector math\<close>

text \<open>
  \<^verbatim>\<open>cosineSimilarity\<close>: the loop runs over the indices of \<open>vecA\<close>; after the length check
  both vectors have these indices, so the loop is a fold over the paired entries with the
  three accumulators \<open>dotProduct\<close>, \<open>normA\<close>, \<open>normB\<close>.
\<close>

definition cosineStep :: "real \<times> real \<Rightarrow> real \<times> real \<times> real \<Rightarrow> real \<times> real \<times> real" where
  "cosineStep ab acc =
     (case ab of (a, b) \<Rightarrow> case acc of (dotProduct, normA, normB) \<Rightarrow>
        (dotProduct + a * b, normA + a * a, normB + b * b))"

definition cosineSimilarity :: "real list \<Rightarrow> real list \<Rightarrow> error + real" where
  "cosineSimilarity vecA vecB =
     (if length vecA \<noteq> length vecB then Inl DimensionMismatch
      else
        (case fold cosineStep (zip vecA vecB) (0, 0, 0) of
           (dotProduct, normA, normB) \<Rightarrow>
             (let denominator = sqrt normA * sqrt normB in
              if denominator = 0 then Inr 0 else Inr (dotProduct / denominator))))"

text \<open>The mathematical notions the specification uses for the cosine.\<close>

definition dot :: "real list \<Rightarrow> real list \<Rightarrow> real" where
  "dot a b = (\<Sum>(x, y)\<leftarrow>zip a b. x * y)"

definition norm2 :: "real list \<Rightarrow> real" where
  "norm2 a = sqrt (\<Sum>x\<leftarrow>a. x * x)"

text \<open>
  \<^verbatim>\<open>similarityToPmf(similarities, options?)\<close>.  Both the options object and each of its
  fields may be absent; \<^verbatim>\<open>??\<close> supplies the defaults \<open>1e-8\<close> and \<open>1.0\<close>.
\<close>

record PmfOptions =
  optEpsilon :: "real option"
  optTemperature :: "real option"

definition pmfEpsilon :: "PmfOptions option \<Rightarrow> real" where
  "pmfEpsilon options =
     (case options of None \<Rightarrow> 1 / 10 ^ 8
      | Some opts \<Rightarrow> (case optEpsilon opts of None \<Rightarrow> 1 / 10 ^ 8 | Some e \<Rightarrow> e))"

definition pmfTemperature :: "PmfOptions option \<Rightarrow> real" where
  "pmfTemperature options =
     (case options of None \<Rightarrow> 1
      | Some opts \<Rightarrow> (case optTemperature opts of None \<Rightarrow> 1 | Some t \<Rightarrow> t))"

text \<open>
  \<^verbatim>\<open>Math.max(...scaledSims)\<close> is the greatest entry.  For the empty array JavaScript gives
  \<open>-Infinity\<close>, which no entry then uses: the result is the empty array in the source and in
  the model alike.  \<^verbatim>\<open>reduce((a, b) => a + b, 0)\<close> is a left fold.
\<close>

definition similarityToPmf :: "real list \<Rightarrow> PmfOptions option \<Rightarrow> real list" where
  "similarityToPmf similarities options =
     (let epsilon = pmfEpsilon options;
          temperature = pmfTemperature options;
          scaledSims = map (\<lambda>s. s / temperature) similarities;
          maxSim = Max (set scaledSims);
          expSims = map (\<lambda>s. exp (s - maxSim)) scaledSims;
          sum = foldl (\<lambda>a b. a + b) 0 expSims + epsilon * real (length similarities);
          pmf = map (\<lambda>e. (e + epsilon) / sum) expSims;
          pmfSum = foldl (\<lambda>a b. a + b) 0 pmf
      in map (\<lambda>p. p / pmfSum) pmf)"

text \<open>
  The denominator of the softmax with its floor, written with the sum of the library; the
  lemmas below relate the source's folds to it.
\<close>

definition pmfDenominator :: "real \<Rightarrow> real \<Rightarrow> real list \<Rightarrow> real" where
  "pmfDenominator eps T sims =
     (\<Sum>s\<leftarrow>sims. exp (s / T - Max ((\<lambda>s. s / T) ` set sims))) + eps * real (length sims)"

subsection \<open>Numbers that may be NaN\<close>

text \<open>
  Arithmetic of JavaScript on a number that may be \<open>NaN\<close>: \<open>NaN\<close> is absorbing, and every
  comparison with \<open>NaN\<close> is false.
\<close>

datatype number = Num real | NaN

definition numAdd :: "number \<Rightarrow> number \<Rightarrow> number" where
  "numAdd a b = (case a of NaN \<Rightarrow> NaN | Num x \<Rightarrow> (case b of NaN \<Rightarrow> NaN | Num y \<Rightarrow> Num (x + y)))"

definition numSub :: "number \<Rightarrow> number \<Rightarrow> number" where
  "numSub a b = (case a of NaN \<Rightarrow> NaN | Num x \<Rightarrow> (case b of NaN \<Rightarrow> NaN | Num y \<Rightarrow> Num (x - y)))"

definition numMul :: "number \<Rightarrow> number \<Rightarrow> number" where
  "numMul a b = (case a of NaN \<Rightarrow> NaN | Num x \<Rightarrow> (case b of NaN \<Rightarrow> NaN | Num y \<Rightarrow> Num (x * y)))"

definition numDiv :: "number \<Rightarrow> number \<Rightarrow> number" where
  "numDiv a b = (case a of NaN \<Rightarrow> NaN | Num x \<Rightarrow> (case b of NaN \<Rightarrow> NaN | Num y \<Rightarrow> Num (x / y)))"

text \<open>\<^verbatim>\<open>xs[i]\<close> on an array: \<^verbatim>\<open>undefined\<close> (here \<open>None\<close>) past the end.\<close>

definition elemAt :: "'a list \<Rightarrow> nat \<Rightarrow> 'a option" where
  "elemAt xs i = (if i < length xs then Some (xs ! i) else None)"

text \<open>\<^verbatim>\<open>dist[i] / n\<close>: \<^verbatim>\<open>undefined / n\<close> is \<open>NaN\<close>.\<close>

definition divUndefined :: "real option \<Rightarrow> nat \<Rightarrow> number" where
  "divUndefined d n = (case d of None \<Rightarrow> NaN | Some x \<Rightarrow> Num (x / real n))"

subsection \<open>The anchor catalog\<close>

text \<open>
  An \<^verbatim>\<open>AnchorSet\<close> is an object indexed by level; a level that is not defined reads as
  \<^verbatim>\<open>undefined\<close> (no key of \<^verbatim>\<open>Object.prototype\<close> is a number).  The catalog is a plain
  object: \<open>AnchorCatalog\<close> holds the keys it defines itself, each with an array of anchor
  sets, and reading a key that it does not define finds what \<^verbatim>\<open>Object.prototype\<close> has
  under that key.
\<close>

type_synonym AnchorSet = "nat \<rightharpoonup> string"

type_synonym AnchorCatalog = "string \<rightharpoonup> AnchorSet list"

text \<open>
  The properties of \<^verbatim>\<open>Object.prototype\<close> that every plain object inherits: eleven built-in
  functions, each with its name and its \<^verbatim>\<open>length\<close>, and the accessor \<^verbatim>\<open>__proto__\<close>, whose
  getter returns the prototype of the object that is read, \<^verbatim>\<open>Object.prototype\<close> itself.
  That object has no property \<^verbatim>\<open>length\<close> and, like the functions, no property that is an
  index.
\<close>

datatype inherited = InheritedFunction string nat | InheritedPrototype

definition objectPrototype :: "string \<rightharpoonup> inherited" where
  "objectPrototype =
     map_of
       [(''constructor'', InheritedFunction ''Object'' 1),
        (''__defineGetter__'', InheritedFunction ''__defineGetter__'' 2),
        (''__defineSetter__'', InheritedFunction ''__defineSetter__'' 2),
        (''hasOwnProperty'', InheritedFunction ''hasOwnProperty'' 1),
        (''__lookupGetter__'', InheritedFunction ''__lookupGetter__'' 1),
        (''__lookupSetter__'', InheritedFunction ''__lookupSetter__'' 1),
        (''isPrototypeOf'', InheritedFunction ''isPrototypeOf'' 1),
        (''propertyIsEnumerable'', InheritedFunction ''propertyIsEnumerable'' 1),
        (''toString'', InheritedFunction ''toString'' 0),
        (''valueOf'', InheritedFunction ''valueOf'' 0),
        (''toLocaleString'', InheritedFunction ''toLocaleString'' 0),
        (''__proto__'', InheritedPrototype)]"

text \<open>
  \<^verbatim>\<open>String(v)\<close> for an inherited value \<open>v\<close>, as the runtime of the repository (Node) prints
  it; it is what a property access or a template literal makes of \<open>v\<close>.
\<close>

definition inheritedToString :: "inherited \<Rightarrow> string" where
  "inheritedToString v =
     (case v of
        InheritedFunction name n \<Rightarrow> ''function '' @ name @ ''() { [native code] }''
      | InheritedPrototype \<Rightarrow> ''[object Object]'')"

text \<open>
  \<^verbatim>\<open>catalog[key]\<close>: the array the catalog defines under the key, else the inherited value,
  else \<^verbatim>\<open>undefined\<close>; and \<^verbatim>\<open>sets.length\<close> of such a value (\<open>None\<close> is \<^verbatim>\<open>undefined\<close>).
\<close>

datatype catalogValue = Undefined | AnchorSets "AnchorSet list" | Inherited inherited

definition catalogLookup :: "AnchorCatalog \<Rightarrow> string \<Rightarrow> catalogValue" where
  "catalogLookup catalog key =
     (case catalog key of
        Some sets \<Rightarrow> AnchorSets sets
      | None \<Rightarrow> (case objectPrototype key of None \<Rightarrow> Undefined | Some v \<Rightarrow> Inherited v))"

definition lengthOf :: "catalogValue \<Rightarrow> nat option" where
  "lengthOf v =
     (case v of
        Undefined \<Rightarrow> None
      | AnchorSets sets \<Rightarrow> Some (length sets)
      | Inherited (InheritedFunction name n) \<Rightarrow> Some n
      | Inherited InheritedPrototype \<Rightarrow> None)"

definition easeAnchorSets :: "AnchorSet list" where
  "easeAnchorSets =
     [map_of
        [(1, ''This was extremely difficult. I could not complete the task at all.''),
         (2, ''This was quite difficult. I struggled significantly to make progress.''),
         (3, ''This was moderately easy. I encountered some friction but got through.''),
         (4, ''This was fairly easy. I had only minor issues.''),
         (5, ''This was very easy. I completed the task effortlessly.'')],
      map_of
        [(1, ''Impossible to use. The interface was completely confusing.''),
         (2, ''Very hard to figure out. I got stuck multiple times.''),
         (3, ''Somewhat straightforward. A few confusing moments.''),
         (4, ''Pretty intuitive. Found my way without much trouble.''),
         (5, ''Extremely intuitive. Everything was exactly where I expected.'')],
      map_of
        [(1, ''I gave up. This was too frustrating to continue.''),
         (2, ''I almost gave up. Required significant effort to persist.''),
         (3, ''I managed, but it took some effort to figure things out.''),
         (4, ''Mostly smooth experience with minor hiccups.''),
         (5, ''Completely smooth. No obstacles whatsoever.'')],
      map_of
        [(1, ''The worst user experience I've ever had.''),
         (2, ''A poor user experience with many problems.''),
         (3, ''An average user experience, neither great nor terrible.''),
         (4, ''A good user experience with room for improvement.''),
         (5, ''An excellent user experience, very well designed.'')],
      map_of
        [(1, ''I would never recommend this to anyone.''),
         (2, ''I would warn others about the difficulty.''),
         (3, ''I might mention it's a bit tricky to use.''),
         (4, ''I would say it's pretty easy to use.''),
         (5, ''I would highly recommend it for its ease of use.'')],
      map_of
        [(1, ''Completely failed to accomplish what I wanted.''),
         (2, ''Barely accomplished my goal after much struggle.''),
         (3, ''Accomplished my goal with moderate effort.''),
         (4, ''Accomplished my goal fairly efficiently.''),
         (5, ''Accomplished my goal quickly and easily.'')]]"

definition trustAnchorSets :: "AnchorSet list" where
  "trustAnchorSets =
     [map_of
        [(1, ''I don't trust this site at all. It feels suspicious and unsafe.''),
         (2, ''I have significant concerns about this site's trustworthiness.''),
         (3, ''I'm neutral. The site seems neither trustworthy nor untrustworthy.''),
         (4, ''I mostly trust this site. It appears legitimate.''),
         (5, ''I completely trust this site. I would share sensitive information.'')],
      map_of
        [(1, ''This site looks like a scam. I would never enter my information.''),
         (2, ''This site feels unprofessional and raises red flags.''),
         (3, ''This site seems okay but I'm not fully confident.''),
         (4, ''This site looks professional and reliable.''),
         (5, ''This site is clearly trustworthy and secure.'')],
      map_of
        [(1, ''I feel very unsafe using this website.''),
         (2, ''I feel somewhat uneasy about security on this site.''),
         (3, ''I don't have strong feelings about security either way.''),
         (4, ''I feel reasonably secure using this site.''),
         (5, ''I feel completely safe and secure on this website.'')],
      map_of
        [(1, ''I would never give my credit card to this site.''),
         (2, ''I would be very hesitant to make a purchase here.''),
         (3, ''I might consider a purchase but with caution.''),
         (4, ''I would be comfortable making a purchase.''),
         (5, ''I would have no hesitation buying from this site.'')],
      map_of
        [(1, ''This site seems designed to deceive users.''),
         (2, ''This site has some deceptive or dark patterns.''),
         (3, ''This site is fairly straightforward in its presentation.''),
         (4, ''This site is transparent and honest in its design.''),
         (5, ''This site is exemplary in its honesty and transparency.'')],
      map_of
        [(1, ''I feel this site is actively trying to harm users.''),
         (2, ''I feel this site doesn't have users' best interests at heart.''),
         (3, ''I feel this site is indifferent to user wellbeing.''),
         (4, ''I feel this site cares about its users.''),
         (5, ''I feel this site genuinely prioritizes user wellbeing.'')]]"

definition DEFAULT_ANCHOR_SETS :: AnchorCatalog where
  "DEFAULT_ANCHOR_SETS = [''ease'' \<mapsto> easeAnchorSets, ''trust'' \<mapsto> trustAnchorSets]"

subsection \<open>The scorer\<close>

text \<open>
  The interface \<^verbatim>\<open>EmbeddingProvider\<close> has one method, \<^verbatim>\<open>embed(texts)\<close>, which is a
  parameter of the model: from the texts and the provider's state \<open>'p\<close> it gives the
  vectors, or the message it rejects with, and the provider's next state.  A text is a
  string or \<^verbatim>\<open>undefined\<close> (an anchor level that the anchor set does not define).
\<close>

type_synonym 'p EmbedFn = "string option list \<Rightarrow> 'p \<Rightarrow> (string + real list list) \<times> 'p"

record 'p SsrScorerOptions =
  optProvider :: 'p
  optAnchorSets :: "AnchorCatalog option"
  optScorerEpsilon :: "real option"
  optScorerTemperature :: "real option"

record 'p SsrScorer =
  provider :: 'p
  anchorSets :: AnchorCatalog
  epsilon :: real
  temperature :: real
  anchorEmbeddingsCache :: "string \<rightharpoonup> real list list"

text \<open>\<open>anchorSetCount\<close> is \<^verbatim>\<open>sets.length\<close>: a number, or \<^verbatim>\<open>undefined\<close> (here \<open>None\<close>).\<close>

record ScoreResult =
  distribution :: "number list"
  expectedScore :: number
  entropy :: number
  anchorSetCount :: "nat option"

text \<open>The constructor.\<close>

definition newSsrScorer :: "'p SsrScorerOptions \<Rightarrow> 'p SsrScorer" where
  "newSsrScorer options =
     \<lparr> provider = optProvider options,
       anchorSets = (case optAnchorSets options of None \<Rightarrow> DEFAULT_ANCHOR_SETS | Some a \<Rightarrow> a),
       epsilon = (case optScorerEpsilon options of None \<Rightarrow> 1 / 10 ^ 8 | Some e \<Rightarrow> e),
       temperature = (case optScorerTemperature options of None \<Rightarrow> 1 | Some t \<Rightarrow> t),
       anchorEmbeddingsCache = Map.empty \<rparr>"

text \<open>
  The template literal \<^verbatim>\<open>`${questionType}:${anchorSetIndex}`\<close> prints the index in
  decimal (the index is an array index, a natural number below \<open>2^32\<close>).
\<close>

definition digitChar :: "nat \<Rightarrow> char" where
  "digitChar d = ''0123456789'' ! d"

fun stringOfNat :: "nat \<Rightarrow> string" where
  "stringOfNat n = (if n < 10 then [digitChar n] else stringOfNat (n div 10) @ [digitChar (n mod 10)])"

declare stringOfNat.simps [simp del]

definition anchorCacheKey :: "string \<Rightarrow> nat \<Rightarrow> string" where
  "anchorCacheKey questionType anchorSetIndex = questionType @ '':'' @ stringOfNat anchorSetIndex"

text \<open>
  \<^verbatim>\<open>getAnchorEmbeddings\<close>.  A cached array is truthy, so \<^verbatim>\<open>if (cached)\<close> asks whether the
  key is present.  \<^verbatim>\<open>this.anchorSets[questionType]?.[anchorSetIndex]\<close> is an anchor set only
  when the catalog defines the type and the index is within its array: it is \<^verbatim>\<open>undefined\<close>
  when the index is past the end, when the type is absent, and when the type names an
  inherited value, none of which has a property that is an index.
\<close>

definition getAnchorEmbeddings ::
  "'p EmbedFn \<Rightarrow> 'p SsrScorer \<Rightarrow> string \<Rightarrow> nat \<Rightarrow> (error + real list list) \<times> 'p SsrScorer" where
  "getAnchorEmbeddings providerEmbed this questionType anchorSetIndex =
     (let cacheKey = anchorCacheKey questionType anchorSetIndex in
      case anchorEmbeddingsCache this cacheKey of
        Some cached \<Rightarrow> (Inr cached, this)
      | None \<Rightarrow>
          (case (case anchorSets this questionType of
                   None \<Rightarrow> None
                 | Some sets \<Rightarrow> elemAt sets anchorSetIndex) of
             None \<Rightarrow> (Inl (NoAnchorSetFound questionType anchorSetIndex), this)
           | Some anchorSet \<Rightarrow>
               (let anchors = map (\<lambda>level. anchorSet level) [1, 2, 3, 4, 5] in
                case providerEmbed anchors (provider this) of
                  (Inl msg, p') \<Rightarrow> (Inl (ProviderError msg), this\<lparr>provider := p'\<rparr>)
                | (Inr embeddings, p') \<Rightarrow>
                    (Inr embeddings,
                     this\<lparr>provider := p',
                          anchorEmbeddingsCache :=
                            (anchorEmbeddingsCache this)(cacheKey \<mapsto> embeddings)\<rparr>))))"

text \<open>
  \<^verbatim>\<open>anchorEmbeddings.map((anchor) => cosineSimilarity(answerEmbedding, anchor))\<close>, left to
  right, stopping at the first throw.  The answer's embedding is \<^verbatim>\<open>undefined\<close> when the
  provider returned no vector; \<^verbatim>\<open>vecA.length\<close> then throws a \<^verbatim>\<open>TypeError\<close>.
\<close>

fun similarities :: "real list option \<Rightarrow> real list list \<Rightarrow> error + real list" where
  "similarities answerEmbedding [] = Inr []"
| "similarities answerEmbedding (anchor # rest) =
     (case (case answerEmbedding of
              None \<Rightarrow> Inl TypeError
            | Some vecA \<Rightarrow> cosineSimilarity vecA anchor) of
        Inl e \<Rightarrow> Inl e
      | Inr s \<Rightarrow>
          (case similarities answerEmbedding rest of
             Inl e \<Rightarrow> Inl e
           | Inr ss \<Rightarrow> Inr (s # ss)))"

text \<open>
  The first loop of \<^verbatim>\<open>scoreAnswer\<close>, over the indices \<open>i = 0, \<dots>, sets.length - 1\<close>:
  the anchor embeddings of set \<open>i\<close>, the five similarities, their distribution, pushed on
  \<open>distributions\<close>.
\<close>

fun distributionsLoop ::
  "'p EmbedFn \<Rightarrow> string \<Rightarrow> real list option \<Rightarrow> nat list \<Rightarrow> 'p SsrScorer \<Rightarrow> real list list
     \<Rightarrow> (error + real list list) \<times> 'p SsrScorer" where
  "distributionsLoop providerEmbed questionType answerEmbedding [] this distributions =
     (Inr distributions, this)"
| "distributionsLoop providerEmbed questionType answerEmbedding (i # rest) this distributions =
     (case getAnchorEmbeddings providerEmbed this questionType i of
        (Inl e, this') \<Rightarrow> (Inl e, this')
      | (Inr anchorEmbeddings, this') \<Rightarrow>
          (case similarities answerEmbedding anchorEmbeddings of
             Inl e \<Rightarrow> (Inl e, this')
           | Inr sims \<Rightarrow>
               (let pmf = similarityToPmf sims
                            (Some \<lparr>optEpsilon = Some (epsilon this'),
                                   optTemperature = Some (temperature this')\<rparr>)
                in distributionsLoop providerEmbed questionType answerEmbedding rest this'
                     (distributions @ [pmf]))))"

text \<open>
  The second loop: \<^verbatim>\<open>avgDistribution[i] += dist[i] / distributions.length\<close> for
  \<open>i = 0, \<dots>, 4\<close> and every distribution in turn.
\<close>

definition addDistribution :: "nat \<Rightarrow> real list \<Rightarrow> number list \<Rightarrow> number list" where
  "addDistribution n distr avgDistribution =
     fold (\<lambda>i avg. avg[i := numAdd (avg ! i) (divUndefined (elemAt distr i) n)]) [0..<5]
       avgDistribution"

definition averageDistributions :: "real list list \<Rightarrow> number list" where
  "averageDistributions distributions =
     fold (addDistribution (length distributions)) distributions
       [Num 0, Num 0, Num 0, Num 0, Num 0]"

text \<open>\<^verbatim>\<open>reduce((sum, prob, i) => sum + prob * (i + 1), 0)\<close>.\<close>

definition expectedScoreOf :: "number list \<Rightarrow> number" where
  "expectedScoreOf avgDistribution =
     foldl (\<lambda>sum (prob, i). numAdd sum (numMul prob (Num (real i + 1)))) (Num 0)
       (zip avgDistribution [0..<length avgDistribution])"

text \<open>
  The entropy: \<^verbatim>\<open>prob > 0\<close> is false for \<open>0\<close>, for a negative number and for \<open>NaN\<close>, and
  the term is then left out.
\<close>

definition entropyStep :: "number \<Rightarrow> number \<Rightarrow> number" where
  "entropyStep acc prob =
     (case prob of
        NaN \<Rightarrow> acc
      | Num p \<Rightarrow> if 0 < p then numSub acc (numMul prob (Num (log 2 p))) else acc)"

definition entropyOf :: "number list \<Rightarrow> number" where
  "entropyOf avgDistribution = foldl entropyStep (Num 0) avgDistribution"

text \<open>
  \<^verbatim>\<open>scoreAnswer\<close>.  \<^verbatim>\<open>!sets\<close> holds for \<^verbatim>\<open>undefined\<close> only (arrays, functions and objects
  are truthy), and \<^verbatim>\<open>sets.length === 0\<close> fails for a length that is \<^verbatim>\<open>undefined\<close>.  The loop
  \<^verbatim>\<open>for (let i = 0; i < sets.length; i++)\<close> runs over the indices below the length, and not
  at all when the length is \<^verbatim>\<open>undefined\<close>: \<^verbatim>\<open>0 < undefined\<close> is false.
\<close>

definition loopBound :: "nat option \<Rightarrow> nat" where
  "loopBound len = (case len of None \<Rightarrow> 0 | Some n \<Rightarrow> n)"

definition scoreAnswer ::
  "'p EmbedFn \<Rightarrow> 'p SsrScorer \<Rightarrow> string \<Rightarrow> string \<Rightarrow> (error + ScoreResult) \<times> 'p SsrScorer" where
  "scoreAnswer providerEmbed this questionType freeTextAnswer =
     (let sets = catalogLookup (anchorSets this) questionType in
      if sets = Undefined \<or> lengthOf sets = Some 0
      then (Inl (UnknownQuestionType questionType), this)
      else
        (case providerEmbed [Some freeTextAnswer] (provider this) of
           (Inl msg, p') \<Rightarrow> (Inl (ProviderError msg), this\<lparr>provider := p'\<rparr>)
         | (Inr vectors, p') \<Rightarrow>
             (let answerEmbedding = elemAt vectors 0 in
              case distributionsLoop providerEmbed questionType answerEmbedding
                     [0..<loopBound (lengthOf sets)] (this\<lparr>provider := p'\<rparr>) [] of
                (Inl e, this') \<Rightarrow> (Inl e, this')
              | (Inr distributions, this') \<Rightarrow>
                  (let avgDistribution = averageDistributions distributions in
                   (Inr \<lparr> distribution = avgDistribution,
                          expectedScore = expectedScoreOf avgDistribution,
                          entropy = entropyOf avgDistribution,
                          anchorSetCount = lengthOf sets \<rparr>,
                    this')))))"

subsection \<open>Scoring a batch of answers\<close>

text \<open>
  \<^verbatim>\<open>scores[questionId] = { ...result, answer }\<close>: a score result with the answer's text.
  The object \<open>scores\<close> is the association list of the keys it defines itself, one entry
  per key, and \<^verbatim>\<open>Object.keys(scores).length\<close> is its length (the list keeps the order of
  insertion; JavaScript lists keys that are array indices first, which changes neither the
  keys nor their number).  \<^verbatim>\<open>Object.entries(freeTextAnswers)\<close> is the list of the entries the
  answers define themselves, in the order the loop visits them.
\<close>

record ScoredAnswer = ScoreResult +
  answer :: string

record Summary =
  averageExpectedScore :: number
  averageEntropy :: number
  questionCount :: nat

record SsrScoresResult =
  scores :: "(string \<times> ScoredAnswer) list"
  summary :: Summary

text \<open>
  \<^verbatim>\<open>questionTypeMapping?.[questionId] ?? questionId\<close>.  The mapping is a plain object too:
  for an id that it does not define and \<^verbatim>\<open>Object.prototype\<close> does, the read gives the
  inherited value, which is not \<^verbatim>\<open>undefined\<close>, so \<^verbatim>\<open>??\<close> keeps it.  The scorer uses a
  question type as a property key and inside template literals only, and both turn the
  value into \<^verbatim>\<open>String(value)\<close>, which is the question type here.
\<close>

definition resolveQuestionType :: "(string \<rightharpoonup> string) option \<Rightarrow> string \<Rightarrow> string" where
  "resolveQuestionType questionTypeMapping questionId =
     (case questionTypeMapping of
        None \<Rightarrow> questionId
      | Some m \<Rightarrow>
          (case m questionId of
             Some questionType \<Rightarrow> questionType
           | None \<Rightarrow>
               (case objectPrototype questionId of
                  None \<Rightarrow> questionId
                | Some v \<Rightarrow> inheritedToString v)))"

text \<open>
  \<^verbatim>\<open>scores[questionId] = value\<close> on the plain object \<open>scores\<close>.  For the key \<^verbatim>\<open>__proto__\<close>
  the assignment finds the accessor of \<^verbatim>\<open>Object.prototype\<close> and calls its setter: the
  prototype of \<open>scores\<close> becomes \<open>value\<close> and \<open>scores\<close> gets no key.  (The new prototype
  has writable data properties only, as \<^verbatim>\<open>Object.prototype\<close> has apart from that accessor,
  so every other key is defined on \<open>scores\<close> itself, before and after.)
\<close>

definition assignScore ::
  "string \<Rightarrow> 'v \<Rightarrow> (string \<times> 'v) list \<Rightarrow> (string \<times> 'v) list" where
  "assignScore questionId scored scoresSoFar =
     (if questionId = ''__proto__'' then scoresSoFar
      else AList.update questionId scored scoresSoFar)"

text \<open>
  The loop over the entries, with its state: the scorer, \<open>scores\<close>, \<open>totalExpectedScore\<close>
  and \<open>totalEntropy\<close>.  The \<^verbatim>\<open>catch\<close> only prints a warning; what the failed call did to the
  scorer and to the provider stays.
\<close>

fun scoreLoop ::
  "'p EmbedFn \<Rightarrow> (string \<rightharpoonup> string) option \<Rightarrow> (string \<times> string) list \<Rightarrow>
     'p SsrScorer \<times> (string \<times> ScoredAnswer) list \<times> number \<times> number \<Rightarrow>
     'p SsrScorer \<times> (string \<times> ScoredAnswer) list \<times> number \<times> number" where
  "scoreLoop providerEmbed questionTypeMapping [] st = st"
| "scoreLoop providerEmbed questionTypeMapping ((questionId, answerText) # rest)
     (scorer, scoresSoFar, totalExpectedScore, totalEntropy) =
     (let questionType = resolveQuestionType questionTypeMapping questionId in
      case scoreAnswer providerEmbed scorer questionType answerText of
        (Inr result, scorer') \<Rightarrow>
          scoreLoop providerEmbed questionTypeMapping rest
            (scorer',
             assignScore questionId
               \<lparr> distribution = distribution result,
                 expectedScore = expectedScore result,
                 entropy = entropy result,
                 anchorSetCount = anchorSetCount result,
                 answer = answerText \<rparr> scoresSoFar,
             numAdd totalExpectedScore (expectedScore result),
             numAdd totalEntropy (entropy result))
      | (Inl err, scorer') \<Rightarrow>
          scoreLoop providerEmbed questionTypeMapping rest
            (scorer', scoresSoFar, totalExpectedScore, totalEntropy))"

text \<open>
  \<^verbatim>\<open>scoreAllAnswers\<close> returns the scores; the second component is the provider's state
  after the calls.
\<close>

definition scoreAllAnswers ::
  "'p EmbedFn \<Rightarrow> (string \<times> string) list \<Rightarrow> 'p \<Rightarrow> (string \<rightharpoonup> string) option
     \<Rightarrow> SsrScoresResult \<times> 'p" where
  "scoreAllAnswers providerEmbed freeTextAnswers providerState questionTypeMapping =
     (let scorer = newSsrScorer \<lparr> optProvider = providerState, optAnchorSets = None,
                                  optScorerEpsilon = None, optScorerTemperature = None \<rparr>;
          entries = freeTextAnswers
      in case scoreLoop providerEmbed questionTypeMapping entries (scorer, [], Num 0, Num 0) of
           (scorer', scoresFinal, totalExpectedScore, totalEntropy) \<Rightarrow>
             (let scoredCount = length scoresFinal in
              (\<lparr> scores = scoresFinal,
                 summary =
                   \<lparr> averageExpectedScore =
                       (if 0 < scoredCount
                        then numDiv totalExpectedScore (Num (real scoredCount)) else Num 0),
                     averageEntropy =
                       (if 0 < scoredCount
                        then numDiv totalEntropy (Num (real scoredCount)) else Num 0),
                     questionCount = scoredCount \<rparr> \<rparr>,
               provider scorer')))"

text \<open>
  What the specification says of the batch, in its words: every question is scored in turn
  (\<open>outcomes\<close>), the successfully scored ones are kept (\<open>succeeded\<close>), and the summary is
  made of arithmetic means over them.
\<close>

fun outcomes ::
  "'p EmbedFn \<Rightarrow> (string \<rightharpoonup> string) option \<Rightarrow> 'p SsrScorer \<Rightarrow> (string \<times> string) list
     \<Rightarrow> (string \<times> string \<times> (error + ScoreResult)) list" where
  "outcomes providerEmbed questionTypeMapping scorer [] = []"
| "outcomes providerEmbed questionTypeMapping scorer ((questionId, answerText) # rest) =
     (case scoreAnswer providerEmbed scorer
             (resolveQuestionType questionTypeMapping questionId) answerText of
        (r, scorer') \<Rightarrow>
          (questionId, answerText, r)
            # outcomes providerEmbed questionTypeMapping scorer' rest)"

fun succeeded ::
  "(string \<times> string \<times> (error + ScoreResult)) list \<Rightarrow> (string \<times> string \<times> ScoreResult) list" where
  "succeeded [] = []"
| "succeeded ((questionId, answerText, Inr result) # rest) =
     (questionId, answerText, result) # succeeded rest"
| "succeeded ((questionId, answerText, Inl err) # rest) = succeeded rest"

definition numSum :: "number list \<Rightarrow> number" where
  "numSum xs = foldr numAdd xs (Num 0)"

definition arithmeticMean :: "number list \<Rightarrow> number" where
  "arithmeticMean xs = numDiv (numSum xs) (Num (real (length xs)))"

subsection \<open>The provider's cache\<close>

text \<open>
  \<^verbatim>\<open>VoyageProvider.embed\<close>.  The request to the backend, \<^verbatim>\<open>fetchEmbeddings\<close>, is a parameter:
  from the texts and the state \<open>'w\<close> of the outside world it gives the vectors, or the
  message of the error it throws.  An entry of \<open>results\<close> is \<^verbatim>\<open>null\<close> (here \<open>None\<close>) until it
  is filled.  When the backend returns fewer vectors than texts, \<^verbatim>\<open>embeddings[i]\<close> is
  \<^verbatim>\<open>undefined\<close>, and a key set to \<^verbatim>\<open>undefined\<close> reads as absent: \<^verbatim>\<open>if (cached)\<close> fails for it.
\<close>

type_synonym 'w FetchFn = "string list \<Rightarrow> 'w \<Rightarrow> (string + real list list) \<times> 'w"

record 'w VoyageProvider =
  cache :: "string \<rightharpoonup> real list"
  backend :: 'w

definition lookupStep ::
  "(string \<rightharpoonup> real list) \<Rightarrow> string list \<Rightarrow> nat
     \<Rightarrow> real list option list \<times> string list \<times> nat list
     \<Rightarrow> real list option list \<times> string list \<times> nat list" where
  "lookupStep c texts i st =
     (case st of (results, uncachedTexts, uncachedIndices) \<Rightarrow>
        (case c (texts ! i) of
           Some cached \<Rightarrow> (results[i := Some cached], uncachedTexts, uncachedIndices)
         | None \<Rightarrow> (results, uncachedTexts @ [texts ! i], uncachedIndices @ [i])))"

definition storeStep ::
  "string list \<Rightarrow> nat list \<Rightarrow> real list list \<Rightarrow> nat
     \<Rightarrow> (string \<rightharpoonup> real list) \<times> real list option list
     \<Rightarrow> (string \<rightharpoonup> real list) \<times> real list option list" where
  "storeStep uncachedTexts uncachedIndices embeddings i st =
     (case st of (c, results) \<Rightarrow>
        (let text = uncachedTexts ! i;
             embedding = elemAt embeddings i
         in (c(text := embedding), results[uncachedIndices ! i := embedding])))"

definition VoyageProvider_embed ::
  "'w FetchFn \<Rightarrow> 'w VoyageProvider \<Rightarrow> string list
     \<Rightarrow> (error + real list option list) \<times> 'w VoyageProvider" where
  "VoyageProvider_embed fetchEmbeddings this texts =
     (case fold (lookupStep (cache this) texts) [0..<length texts]
             (replicate (length texts) None, [], []) of
        (results, uncachedTexts, uncachedIndices) \<Rightarrow>
          if 0 < length uncachedTexts then
            (case fetchEmbeddings uncachedTexts (backend this) of
               (Inl msg, w') \<Rightarrow> (Inl (ProviderError msg), this\<lparr>backend := w'\<rparr>)
             | (Inr embeddings, w') \<Rightarrow>
                 (case fold (storeStep uncachedTexts uncachedIndices embeddings)
                         [0..<length uncachedTexts] (cache this, results) of
                    (c', results') \<Rightarrow> (Inr results', this\<lparr>cache := c', backend := w'\<rparr>)))
          else (Inr results, this))"

text \<open>A cache agrees with \<open>g\<close> when every vector it holds is the vector \<open>g\<close> gives its key.\<close>

definition cacheAgrees :: "(string \<rightharpoonup> real list) \<Rightarrow> (string \<Rightarrow> real list) \<Rightarrow> bool" where
  "cacheAgrees c g \<longleftrightarrow> (\<forall>t v. c t = Some v \<longrightarrow> v = g t)"

subsection \<open>Notions of the specification\<close>

text \<open>The cosine of two vectors, \<open>0\<close> when one of them has the norm \<open>0\<close>.\<close>

definition cosine :: "real list \<Rightarrow> real list \<Rightarrow> real" where
  "cosine a b = (if norm2 a = 0 \<or> norm2 b = 0 then 0 else dot a b / (norm2 a * norm2 b))"

text \<open>
  A distribution over the five levels: five probabilities that sum to one.  The
  distributions that \<^verbatim>\<open>similarityToPmf\<close> gives have no entry \<open>0\<close>.
\<close>

definition isDistribution :: "real list \<Rightarrow> bool" where
  "isDistribution p \<longleftrightarrow> length p = 5 \<and> sum_list p = 1 \<and> list_all (\<lambda>x. 0 \<le> x) p"

definition isPmf :: "real list \<Rightarrow> bool" where
  "isPmf p \<longleftrightarrow> length p = 5 \<and> sum_list p = 1 \<and> list_all (\<lambda>x. 0 < x) p"

definition uniformDistribution :: "real list" where
  "uniformDistribution = [1 / 5, 1 / 5, 1 / 5, 1 / 5, 1 / 5]"

text \<open>The term \<open>p * log2 p\<close> of the entropy, with the convention \<open>0 * log2 0 = 0\<close>.\<close>

definition shannonTerm :: "real \<Rightarrow> real" where
  "shannonTerm p = (if p = 0 then 0 else p * log 2 p)"

text \<open>The average, with the weight \<open>1/N\<close> each, of \<open>N\<close> distributions at the index \<open>i\<close>.\<close>

definition averageAt :: "real list list \<Rightarrow> nat \<Rightarrow> real" where
  "averageAt ds i = (\<Sum>d\<leftarrow>ds. d ! i / real (length ds))"

text \<open>
  The distributions of the anchor sets, in the words of the specification (4.3): for each
  anchor set of the question type, look up the embedding cache under (question type, index
  of the anchor set) or, when it has no entry, populate it with one call of the provider
  on the five statements of the anchor set in the order of the levels 1 to 5; take the
  five cosines between the answer's embedding and the five embeddings; convert them to a
  distribution (4.1) with the scorer's epsilon and temperature.  The cache is keyed by the
  pair, and the state is the cache with the provider's state.  (When the provider fails,
  there is no distribution for this anchor set or a later one.)
\<close>

fun anchorSetDistributions ::
  "'p EmbedFn \<Rightarrow> string \<Rightarrow> AnchorSet list \<Rightarrow> real list \<Rightarrow> real \<Rightarrow> real \<Rightarrow> nat list
     \<Rightarrow> ((string \<times> nat) \<rightharpoonup> real list list) \<times> 'p \<Rightarrow> real list list" where
  "anchorSetDistributions providerEmbed questionType sets answerEmbedding eps T [] st = []"
| "anchorSetDistributions providerEmbed questionType sets answerEmbedding eps T (i # rest)
     (embeddingCache, p) =
     (case embeddingCache (questionType, i) of
        Some embeddings \<Rightarrow>
          similarityToPmf (map (cosine answerEmbedding) embeddings)
            (Some \<lparr>optEpsilon = Some eps, optTemperature = Some T\<rparr>)
          # anchorSetDistributions providerEmbed questionType sets answerEmbedding eps T rest
              (embeddingCache, p)
      | None \<Rightarrow>
          (case providerEmbed (map (\<lambda>level. (sets ! i) level) [1, 2, 3, 4, 5]) p of
             (Inl msg, p') \<Rightarrow> []
           | (Inr embeddings, p') \<Rightarrow>
               similarityToPmf (map (cosine answerEmbedding) embeddings)
                 (Some \<lparr>optEpsilon = Some eps, optTemperature = Some T\<rparr>)
               # anchorSetDistributions providerEmbed questionType sets answerEmbedding eps T rest
                   (embeddingCache((questionType, i) \<mapsto> embeddings), p')))"

text \<open>The scorer's cache, read by the pair of a question type and an index.\<close>

definition cacheByPair :: "'p SsrScorer \<Rightarrow> (string \<times> nat) \<rightharpoonup> real list list" where
  "cacheByPair this = (\<lambda>(questionType, i). anchorEmbeddingsCache this (anchorCacheKey questionType i))"

text \<open>An entry of \<open>scores\<close>: the result of a question with the text of its answer.\<close>

definition scoredEntry :: "string \<times> string \<times> ScoreResult \<Rightarrow> string \<times> ScoredAnswer" where
  "scoredEntry e =
     (case e of (questionId, answerText, result) \<Rightarrow>
        (questionId,
         \<lparr> distribution = distribution result, expectedScore = expectedScore result,
           entropy = entropy result, anchorSetCount = anchorSetCount result,
           answer = answerText \<rparr>))"

subsection \<open>Providers and scorers for the statements\<close>

text \<open>
  A provider keeps its contract for vectors of dimension \<open>d\<close> when every call succeeds
  with as many vectors as texts, each of length \<open>d\<close>.
\<close>

definition conforming :: "'p EmbedFn \<Rightarrow> nat \<Rightarrow> bool" where
  "conforming providerEmbed d \<longleftrightarrow>
     (\<forall>texts p. \<exists>vectors p'. providerEmbed texts p = (Inr vectors, p')
                  \<and> length vectors = length texts \<and> (\<forall>v \<in> set vectors. length v = d))"

text \<open>The anchor cache of a scorer holds, under every key, five vectors of dimension \<open>d\<close>.\<close>

definition cacheWellFormed :: "'p SsrScorer \<Rightarrow> nat \<Rightarrow> bool" where
  "cacheWellFormed this d \<longleftrightarrow>
     (\<forall>k vectors. anchorEmbeddingsCache this k = Some vectors
        \<longrightarrow> length vectors = 5 \<and> (\<forall>v \<in> set vectors. length v = d))"

text \<open>A provider that counts: it records the texts of every call before passing them on.\<close>

definition counting :: "'p EmbedFn \<Rightarrow> ('p \<times> string option list list) EmbedFn" where
  "counting providerEmbed texts st =
     (case st of (p, calls) \<Rightarrow>
        (case providerEmbed texts p of (r, p') \<Rightarrow> (r, (p', calls @ [texts]))))"

text \<open>
  Examples.  A provider for which every text has the vector \<open>(1, 0)\<close> (its state counts the
  calls), the scorer that \<^verbatim>\<open>scoreAllAnswers\<close> constructs on it, the same scorer on the
  counting provider; a backend whose vector for a text is \<open>(length of the text, 1)\<close>, and a
  provider with one text in its cache.
\<close>

definition constantProvider :: "nat EmbedFn" where
  "constantProvider texts n = (Inr (map (\<lambda>t. [1, 0]) texts), Suc n)"

definition exampleScorer :: "nat SsrScorer" where
  "exampleScorer = newSsrScorer \<lparr>optProvider = 0, optAnchorSets = None,
                                  optScorerEpsilon = None, optScorerTemperature = None\<rparr>"

definition exampleCountingScorer :: "(nat \<times> string option list list) SsrScorer" where
  "exampleCountingScorer = newSsrScorer \<lparr>optProvider = (0, []), optAnchorSets = None,
                                          optScorerEpsilon = None, optScorerTemperature = None\<rparr>"

definition exampleVector :: "string \<Rightarrow> real list" where
  "exampleVector t = [real (length t), 1]"

definition exampleFetch :: "unit FetchFn" where
  "exampleFetch ts w = (Inr (map exampleVector ts), w)"

definition exampleVoyage :: "unit VoyageProvider" where
  "exampleVoyage = \<lparr> cache = [''a'' \<mapsto> [1, 1]], backend = () \<rparr>"

section \<open>Properties of the vector math\<close>

lemma fold_cosineStep:
  "fold cosineStep ps (d, na, nb) =
     (d + (\<Sum>(x, y)\<leftarrow>ps. x * y), na + (\<Sum>(x, y)\<leftarrow>ps. x * x), nb + (\<Sum>(x, y)\<leftarrow>ps. y * y))"
  by (induction ps arbitrary: d na nb) (auto simp: cosineStep_def)

lemma sum_list_zip_fst:
  "length a = length b \<Longrightarrow> (\<Sum>(x, y)\<leftarrow>zip a b. f x) = (\<Sum>x\<leftarrow>a. f x)"
  by (induction a b rule: list_induct2) auto

lemma sum_list_zip_snd:
  "length a = length b \<Longrightarrow> (\<Sum>(x, y)\<leftarrow>zip a b. f y) = (\<Sum>y\<leftarrow>b. f y)"
  by (induction a b rule: list_induct2) auto

lemma cosineSimilarity_equal_length:
  assumes "length a = length b"
  shows "cosineSimilarity a b =
           Inr (if norm2 a = 0 \<or> norm2 b = 0 then 0 else dot a b / (norm2 a * norm2 b))"
  using assms
  by (simp add: cosineSimilarity_def fold_cosineStep sum_list_zip_fst sum_list_zip_snd
      dot_def norm2_def Let_def)

lemma foldl_plus_sum_list: "foldl (\<lambda>a b. a + b) (c::real) xs = c + sum_list xs"
  by (induction xs arbitrary: c) auto

text \<open>
  Claim C5.  \<^verbatim>\<open>cosineSimilarity\<close> throws, with the message of a dimension mismatch,
  exactly when the lengths differ; on vectors of one length it returns
  \<open>dot a b / (norm2 a * norm2 b)\<close>, and \<open>0\<close> when one of the norms is zero.
\<close>

theorem cosineSimilarity_cases:
  "cosineSimilarity a b =
     (if length a \<noteq> length b then Inl DimensionMismatch
      else Inr (if norm2 a = 0 \<or> norm2 b = 0 then 0 else dot a b / (norm2 a * norm2 b)))"
  by (simp add: cosineSimilarity_equal_length) (simp add: cosineSimilarity_def)

theorem cosineSimilarity_cases_witness:
  "cosineSimilarity [3, 4] [4, 3] = Inr (24 / 25)
   \<and> cosineSimilarity [0, 0] [4, 3] = Inr 0
   \<and> cosineSimilarity [3, 4] [4, 3, 1] = Inl DimensionMismatch"
proof -
  have n1: "norm2 [3, 4] = 5"
    using real_sqrt_abs2[of 5] by (simp add: norm2_def)
  have n2: "norm2 [4, 3] = 5"
    using real_sqrt_abs2[of 5] by (simp add: norm2_def)
  have n0: "norm2 [0, 0] = 0" by (simp add: norm2_def)
  show ?thesis
    using cosineSimilarity_cases[of "[3, 4]" "[4, 3]"]
      cosineSimilarity_cases[of "[0, 0]" "[4, 3]"]
      cosineSimilarity_cases[of "[3, 4]" "[4, 3, 1]"]
    by (simp add: n1 n2 n0 dot_def)
qed

lemma sum_list_pos_real:
  "xs \<noteq> [] \<Longrightarrow> (\<And>x. x \<in> set xs \<Longrightarrow> 0 < f x) \<Longrightarrow> 0 < (\<Sum>x\<leftarrow>xs. (f x :: real))"
proof (induction xs)
  case Nil then show ?case by simp
next
  case (Cons a xs)
  show ?case
  proof (cases "xs = []")
    case True then show ?thesis using Cons.prems by simp
  next
    case False
    then have "0 < (\<Sum>x\<leftarrow>xs. f x)" using Cons by simp
    moreover have "0 < f a" using Cons.prems by simp
    ultimately show ?thesis by simp
  qed
qed

lemma pmfDenominator_pos:
  assumes "sims \<noteq> []" "0 \<le> eps"
  shows "0 < pmfDenominator eps T sims"
proof -
  have "0 < (\<Sum>s\<leftarrow>sims. exp (s / T - Max ((\<lambda>s. s / T) ` set sims)))"
    using assms(1) by (intro sum_list_pos_real) auto
  moreover have "0 \<le> eps * real (length sims)" using assms(2) by simp
  ultimately show ?thesis unfolding pmfDenominator_def by linarith
qed

lemma sum_list_divide: "(\<Sum>x\<leftarrow>xs. f x / (c::real)) = (\<Sum>x\<leftarrow>xs. f x) / c"
  by (induction xs) (auto simp: add_divide_distrib)

lemma sum_list_add_const: "(\<Sum>x\<leftarrow>xs. f x + (c::real)) = (\<Sum>x\<leftarrow>xs. f x) + c * real (length xs)"
  by (induction xs) (auto simp: algebra_simps)

lemma similarityToPmf_closed:
  assumes "sims \<noteq> []" "0 \<le> pmfEpsilon opts"
  shows "similarityToPmf sims opts =
     map (\<lambda>s. (exp (s / pmfTemperature opts - Max ((\<lambda>s. s / pmfTemperature opts) ` set sims)) + pmfEpsilon opts)
                / pmfDenominator (pmfEpsilon opts) (pmfTemperature opts) sims) sims"
proof -
  let ?T = "pmfTemperature opts" and ?e = "pmfEpsilon opts"
  let ?M = "Max ((\<lambda>s. s / ?T) ` set sims)"
  let ?D = "pmfDenominator ?e ?T sims"
  have D: "0 < ?D" using assms by (rule pmfDenominator_pos)
  have one: "(\<Sum>s\<leftarrow>sims. (exp (s / ?T - ?M) + ?e) / ?D) = 1"
    using D by (simp add: sum_list_divide sum_list_add_const pmfDenominator_def)
  show ?thesis
    using one
    by (simp add: similarityToPmf_def Let_def foldl_plus_sum_list comp_def
        pmfDenominator_def[symmetric])
qed

lemma similarityToPmf_length: "length (similarityToPmf sims opts) = length sims"
  by (simp add: similarityToPmf_def Let_def)

lemma similarityToPmf_pmf_aux:
  assumes "sims \<noteq> []" "0 \<le> pmfEpsilon opts"
  shows "sum_list (similarityToPmf sims opts) = 1"
    and "\<forall>p \<in> set (similarityToPmf sims opts). 0 < p"
proof -
  let ?T = "pmfTemperature opts" and ?e = "pmfEpsilon opts"
  let ?D = "pmfDenominator ?e ?T sims"
  have D: "0 < ?D" using assms by (rule pmfDenominator_pos)
  have closed: "similarityToPmf sims opts =
     map (\<lambda>s. (exp (s / ?T - Max ((\<lambda>s. s / ?T) ` set sims)) + ?e) / ?D) sims"
    using assms by (rule similarityToPmf_closed)
  show "sum_list (similarityToPmf sims opts) = 1"
    unfolding closed using D
    by (simp add: comp_def sum_list_divide sum_list_add_const pmfDenominator_def)
  show "\<forall>p \<in> set (similarityToPmf sims opts). 0 < p"
    unfolding closed using D assms(2) by (auto intro!: divide_pos_pos add_pos_nonneg)
qed

text \<open>
  Claim C2.  For five similarities, a temperature above zero and an epsilon that is not
  negative (the defaults \<open>1e-8\<close> and \<open>1.0\<close> among them), the result of
  \<^verbatim>\<open>similarityToPmf\<close> has five entries, they sum to one, and each is strictly positive,
  whatever the sign of the similarities.
\<close>

theorem similarityToPmf_is_pmf:
  assumes "length sims = 5" "0 < pmfTemperature opts" "0 \<le> pmfEpsilon opts"
  shows "length (similarityToPmf sims opts) = 5
       \<and> sum_list (similarityToPmf sims opts) = 1
       \<and> (\<forall>p \<in> set (similarityToPmf sims opts). 0 < p)"
proof -
  have ne: "sims \<noteq> []" using assms(1) by auto
  show ?thesis
    using similarityToPmf_pmf_aux[OF ne assms(3)] assms(1)
    by (simp add: similarityToPmf_length)
qed

theorem similarityToPmf_is_pmf_witness:
  "length [0, - 1, 0, - 1 / 2, 0 :: real] = 5
   \<and> 0 < pmfTemperature None \<and> 0 \<le> pmfEpsilon None
   \<and> length (similarityToPmf [0, - 1, 0, - 1 / 2, 0] None) = 5
   \<and> sum_list (similarityToPmf [0, - 1, 0, - 1 / 2, 0] None) = 1
   \<and> list_all (\<lambda>p. 0 < p) (similarityToPmf [0, - 1, 0, - 1 / 2, 0] None)"
proof -
  have h1: "length [0, - 1, 0, - 1 / 2, 0 :: real] = 5" by simp
  have h2: "0 < pmfTemperature None" by (simp add: pmfTemperature_def)
  have h3: "0 \<le> pmfEpsilon None" by (simp add: pmfEpsilon_def)
  show ?thesis
    using h1 h2 h3 similarityToPmf_is_pmf[OF h1 h2 h3] unfolding list_all_iff by blast
qed

lemma sum_list_map_update:
  "i < length xs \<Longrightarrow>
     (\<Sum>x\<leftarrow>xs[i := v]. (f x :: real)) = (\<Sum>x\<leftarrow>xs. f x) - f (xs ! i) + f v"
proof (induction xs arbitrary: i)
  case Nil then show ?case by simp
next
  case (Cons a xs)
  then show ?case by (cases i) auto
qed

lemma sum_list_ge_member:
  "(\<And>x. x \<in> set xs \<Longrightarrow> 0 \<le> f x) \<Longrightarrow> i < length xs \<Longrightarrow> (f (xs ! i) :: real) \<le> (\<Sum>x\<leftarrow>xs. f x)"
proof (induction xs arbitrary: i)
  case Nil then show ?case by simp
next
  case (Cons a xs)
  have nn: "0 \<le> (\<Sum>x\<leftarrow>xs. f x)" using Cons.prems(1) by (intro sum_list_nonneg) auto
  show ?case
  proof (cases i)
    case 0 then show ?thesis using nn by simp
  next
    case (Suc j)
    then have "f (xs ! j) \<le> (\<Sum>x\<leftarrow>xs. f x)" using Cons by simp
    moreover have "0 \<le> f a" using Cons.prems(1) by simp
    ultimately show ?thesis using Suc by simp
  qed
qed

lemma Max_update_ge:
  fixes xs :: "real list"
  assumes "i < length xs" "xs ! i \<le> v"
  shows "Max (set xs) \<le> Max (set (xs[i := v]))"
proof -
  have ne: "set xs \<noteq> {}" using assms(1) by auto
  have "Max (set xs) \<in> set xs" using ne by (intro Max_in) auto
  then obtain k where k: "k < length xs" "xs ! k = Max (set xs)"
    by (auto simp: in_set_conv_nth)
  have fin: "finite (set (xs[i := v]))" by simp
  show ?thesis
  proof (cases "k = i")
    case True
    have "v \<in> set (xs[i := v])" using assms(1) by (rule set_update_memI)
    then have "v \<le> Max (set (xs[i := v]))" using fin by (rule Max_ge[rotated])
    moreover have "Max (set xs) = xs ! i" using k True by simp
    ultimately show ?thesis using assms(2) by linarith
  next
    case False
    have "xs[i := v] ! k = xs ! k" using False by simp
    moreover have "xs[i := v] ! k \<in> set (xs[i := v])" using k(1) by (intro nth_mem) simp
    ultimately have "xs ! k \<in> set (xs[i := v])" by simp
    then have "xs ! k \<le> Max (set (xs[i := v]))" using fin by (rule Max_ge[rotated])
    then show ?thesis using k by simp
  qed
qed

lemma Max_update_shift:
  fixes xs :: "real list"
  assumes "i < length xs" "xs ! i \<le> v"
  shows "Max (set (xs[i := v])) - Max (set xs) \<le> v - xs ! i"
proof -
  let ?ys = "xs[i := v]"
  have ne: "set ?ys \<noteq> {}" using assms(1) by auto
  have "Max (set ?ys) \<in> set ?ys" using ne by (intro Max_in) auto
  then obtain k where k: "k < length xs" "?ys ! k = Max (set ?ys)"
    by (auto simp: in_set_conv_nth)
  have xi: "xs ! i \<le> Max (set xs)" using assms(1) by (intro Max_ge) auto
  show ?thesis
  proof (cases "k = i")
    case True
    then have "Max (set ?ys) = v" using k assms(1) by simp
    then show ?thesis using xi by linarith
  next
    case False
    then have "Max (set ?ys) = xs ! k" using k by simp
    moreover have "xs ! k \<le> Max (set xs)" using k(1) by (intro Max_ge) auto
    ultimately show ?thesis using assms(2) by linarith
  qed
qed

lemma floor_ratio_mono:
  fixes m m' x x' R e n :: real
  assumes "0 < m" "0 < m'" "0 < x" "0 < x'" "0 \<le> R" "0 \<le> e" "1 \<le> n"
    and "x \<le> x'" "m' \<le> m" "m * x \<le> m' * x'"
  shows "(m * x + e) / (m * (R + x) + n * e) \<le> (m' * x' + e) / (m' * (R + x') + n * e)"
proof -
  have D: "0 < m * (R + x) + n * e" using assms
    by (intro add_pos_nonneg mult_pos_pos add_nonneg_pos mult_nonneg_nonneg) auto
  have D': "0 < m' * (R + x') + n * e" using assms
    by (intro add_pos_nonneg mult_pos_pos add_nonneg_pos mult_nonneg_nonneg) auto
  have t1: "0 \<le> m * m' * R * (x' - x)" using assms by (intro mult_nonneg_nonneg) auto
  have t2: "0 \<le> (n - 1) * e * (m' * x' - m * x)" using assms by (intro mult_nonneg_nonneg) auto
  have t3: "0 \<le> e * R * (m - m')" using assms by (intro mult_nonneg_nonneg) auto
  have "(m' * x' + e) * (m * (R + x) + n * e) - (m * x + e) * (m' * (R + x') + n * e)
        = m * m' * R * (x' - x) + (n - 1) * e * (m' * x' - m * x) + e * R * (m - m')"
    by (simp add: algebra_simps)
  then have "(m * x + e) * (m' * (R + x') + n * e) \<le> (m' * x' + e) * (m * (R + x) + n * e)"
    using t1 t2 t3 by linarith
  then show ?thesis using D D' by (simp add: frac_le_eq divide_le_eq field_simps)
qed

lemma sum_list_exp_shift:
  "(\<Sum>s\<leftarrow>xs. exp (f s - (M::real))) = exp (- M) * (\<Sum>s\<leftarrow>xs. exp (f s))"
  by (induction xs) (auto simp: algebra_simps exp_diff exp_minus divide_inverse)

lemma similarityToPmf_nth:
  assumes "i < length sims" "0 \<le> e" "T = pmfTemperature opts" "e = pmfEpsilon opts"
  shows "similarityToPmf sims opts ! i =
           (exp (- Max (set (map (\<lambda>s. s / T) sims))) * exp (sims ! i / T) + e)
           / (exp (- Max (set (map (\<lambda>s. s / T) sims)))
                * (((\<Sum>s\<leftarrow>sims. exp (s / T)) - exp (sims ! i / T)) + exp (sims ! i / T))
              + real (length sims) * e)"
proof -
  let ?M = "Max (set (map (\<lambda>s. s / T) sims))"
  have ne: "sims \<noteq> []" using assms(1) by auto
  have e': "0 \<le> pmfEpsilon opts" using assms by simp
  have M: "Max ((\<lambda>s. s / T) ` set sims) = ?M" by simp
  have closed: "similarityToPmf sims opts ! i =
      (exp (sims ! i / T - ?M) + e) / pmfDenominator e T sims"
    using assms(1) by (simp add: similarityToPmf_closed[OF ne e'] assms(3,4)[symmetric])
  have num: "exp (sims ! i / T - ?M) = exp (- ?M) * exp (sims ! i / T)"
    by (simp add: exp_diff exp_minus divide_inverse mult.commute)
  have den: "pmfDenominator e T sims =
      exp (- ?M) * (((\<Sum>s\<leftarrow>sims. exp (s / T)) - exp (sims ! i / T)) + exp (sims ! i / T))
        + real (length sims) * e"
    unfolding pmfDenominator_def M
    by (simp add: sum_list_exp_shift[where f = "\<lambda>s. s / T"] mult.commute)
  show ?thesis by (simp only: closed num den)
qed

text \<open>
  Claim C6.  Raising the similarity at one index, the four others fixed, never lowers the
  probability \<^verbatim>\<open>similarityToPmf\<close> gives that index.
\<close>

theorem similarityToPmf_monotone:
  assumes len: "length sims = 5" and i: "i < 5"
    and T: "0 < pmfTemperature opts" and e: "0 \<le> pmfEpsilon opts"
    and le: "sims ! i \<le> s'"
  shows "similarityToPmf sims opts ! i \<le> similarityToPmf (sims[i := s']) opts ! i"
proof -
  let ?T = "pmfTemperature opts" and ?e = "pmfEpsilon opts"
  let ?as = "map (\<lambda>s. s / ?T) sims"
  let ?M = "Max (set ?as)" and ?M' = "Max (set (?as[i := s' / ?T]))"
  let ?x = "exp (sims ! i / ?T)" and ?x' = "exp (s' / ?T)"
  let ?R = "(\<Sum>s\<leftarrow>sims. exp (s / ?T)) - ?x"
  have il: "i < length sims" using len i by simp
  have upd: "map (\<lambda>s. s / ?T) (sims[i := s']) = ?as[i := s' / ?T]"
    by (simp add: map_update)
  have ai: "?as ! i \<le> s' / ?T" using il le T by (simp add: divide_right_mono)
  have ila: "i < length ?as" using il by simp
  have MM: "?M \<le> ?M'" using ila ai by (rule Max_update_ge)
  have shift: "?M' - ?M \<le> s' / ?T - ?as ! i" using ila ai by (rule Max_update_shift)
  have R0: "0 \<le> ?R"
    using sum_list_ge_member[of sims "\<lambda>s. exp (s / ?T)" i] il by simp
  have R': "(\<Sum>s\<leftarrow>sims[i := s']. exp (s / ?T)) - ?x' = ?R"
    using il by (simp add: sum_list_map_update)
  have mx: "exp (- ?M) * ?x \<le> exp (- ?M') * ?x'"
  proof -
    have "- ?M + sims ! i / ?T \<le> - ?M' + s' / ?T" using shift il by simp
    then have "exp (- ?M + sims ! i / ?T) \<le> exp (- ?M' + s' / ?T)" by simp
    then show ?thesis by (simp only: exp_add)
  qed
  have lhs: "similarityToPmf sims opts ! i =
      (exp (- ?M) * ?x + ?e) / (exp (- ?M) * (?R + ?x) + real (length sims) * ?e)"
    using il e by (rule similarityToPmf_nth) simp_all
  have rhs: "similarityToPmf (sims[i := s']) opts ! i =
      (exp (- ?M') * ?x' + ?e) / (exp (- ?M') * (?R + ?x') + real (length sims) * ?e)"
    using similarityToPmf_nth[of i "sims[i := s']" ?e ?T opts] il e
    by (simp add: upd R')
  have "(exp (- ?M) * ?x + ?e) / (exp (- ?M) * (?R + ?x) + real (length sims) * ?e)
      \<le> (exp (- ?M') * ?x' + ?e) / (exp (- ?M') * (?R + ?x') + real (length sims) * ?e)"
  proof (rule floor_ratio_mono)
    show "?x \<le> ?x'" using le T by (simp add: divide_right_mono)
    show "exp (- ?M') \<le> exp (- ?M)" using MM by simp
    show "1 \<le> real (length sims)" using len by simp
  qed (use R0 e mx in simp_all)
  then show ?thesis by (simp only: lhs rhs)
qed

theorem similarityToPmf_monotone_witness:
  "length [0, 0, 0, 0, 0 :: real] = 5 \<and> (2::nat) < 5
   \<and> 0 < pmfTemperature None \<and> 0 \<le> pmfEpsilon None
   \<and> [0, 0, 0, 0, 0 :: real] ! 2 \<le> 1
   \<and> similarityToPmf [0, 0, 0, 0, 0] None ! 2 \<le> similarityToPmf ([0, 0, 0, 0, 0][2 := 1]) None ! 2"
proof -
  have h1: "length [0, 0, 0, 0, 0 :: real] = 5" by simp
  have h2: "(2::nat) < 5" by simp
  have h3: "0 < pmfTemperature None" by (simp add: pmfTemperature_def)
  have h4: "0 \<le> pmfEpsilon None" by (simp add: pmfEpsilon_def)
  have h5: "[0, 0, 0, 0, 0 :: real] ! 2 \<le> 1" by simp
  show ?thesis using h1 h2 h3 h4 h5 similarityToPmf_monotone[OF h1 h2 h3 h4 h5] by blast
qed

section \<open>Properties of the cache key\<close>

lemma digitChar_inj: "a < 10 \<Longrightarrow> b < 10 \<Longrightarrow> digitChar a = digitChar b \<Longrightarrow> a = b"
proof -
  assume a: "a < 10" and b: "b < 10" and e: "digitChar a = digitChar b"
  have d: "distinct ''0123456789''" by simp
  show "a = b"
    using e a b nth_eq_iff_index_eq[OF d, of a b] by (simp add: digitChar_def)
qed

lemma digitChar_not_colon: "a < 10 \<Longrightarrow> digitChar a \<noteq> CHR '':''"
proof
  assume a: "a < 10" and e: "digitChar a = CHR '':''"
  have "''0123456789'' ! a \<in> set ''0123456789''" using a by (intro nth_mem) simp
  then show False using e by (simp add: digitChar_def)
qed

lemma stringOfNat_nonempty: "stringOfNat n \<noteq> []"
  by (subst stringOfNat.simps) simp

lemma stringOfNat_no_colon: "CHR '':'' \<notin> set (stringOfNat n)"
proof (induction n rule: stringOfNat.induct)
  case (1 n)
  show ?case
  proof (cases "n < 10")
    case True
    then show ?thesis using digitChar_not_colon[of n] by (subst stringOfNat.simps) auto
  next
    case False
    have "n mod 10 < 10" by simp
    then have "digitChar (n mod 10) \<noteq> CHR '':''" by (rule digitChar_not_colon)
    then show ?thesis using False 1 by (subst stringOfNat.simps) auto
  qed
qed

lemma stringOfNat_inj: "stringOfNat m = stringOfNat n \<Longrightarrow> m = n"
proof (induction m arbitrary: n rule: stringOfNat.induct)
  case (1 m)
  show ?case
  proof (cases "m < 10")
    case m: True
    show ?thesis
    proof (cases "n < 10")
      case True
      then show ?thesis using m "1.prems" digitChar_inj[of m n]
        by (simp add: stringOfNat.simps[of m] stringOfNat.simps[of n])
    next
      case False
      then show ?thesis using m "1.prems" stringOfNat_nonempty[of "n div 10"]
        by (simp add: stringOfNat.simps[of m] stringOfNat.simps[of n])
    qed
  next
    case m: False
    show ?thesis
    proof (cases "n < 10")
      case True
      then show ?thesis using m "1.prems" stringOfNat_nonempty[of "m div 10"]
        by (simp add: stringOfNat.simps[of m] stringOfNat.simps[of n])
    next
      case False
      have eq: "stringOfNat (m div 10) @ [digitChar (m mod 10)]
              = stringOfNat (n div 10) @ [digitChar (n mod 10)]"
        using m False "1.prems" by (simp add: stringOfNat.simps[of m] stringOfNat.simps[of n])
      then have "stringOfNat (m div 10) = stringOfNat (n div 10)"
        and d: "digitChar (m mod 10) = digitChar (n mod 10)" by simp_all
      then have "m div 10 = n div 10" using "1.IH"[OF m] by simp
      moreover have "m mod 10 = n mod 10" using d by (intro digitChar_inj) simp_all
      ultimately show ?thesis by (metis div_mult_mod_eq)
    qed
  qed
qed

lemma split_at_last_separator:
  assumes "xs @ c # s = ys @ c # t" "c \<notin> set s" "c \<notin> set t"
  shows "xs = ys \<and> s = t"
proof -
  have "rev s @ c # rev xs = rev t @ c # rev ys" using assms(1)
    by (metis rev.simps(2) rev_append append_assoc append_Cons append_Nil)
  then have "takeWhile (\<lambda>x. x \<noteq> c) (rev s @ c # rev xs) = takeWhile (\<lambda>x. x \<noteq> c) (rev t @ c # rev ys)"
    by simp
  moreover have "takeWhile (\<lambda>x. x \<noteq> c) (rev s @ c # rev xs) = rev s"
    using assms(2) by (subst takeWhile_append2) auto
  moreover have "takeWhile (\<lambda>x. x \<noteq> c) (rev t @ c # rev ys) = rev t"
    using assms(3) by (subst takeWhile_append2) auto
  ultimately have "rev s = rev t" by simp
  then have "s = t" by simp
  then show ?thesis using assms(1) by simp
qed

lemma anchorCacheKey_inj:
  "anchorCacheKey qt i = anchorCacheKey qt' j \<Longrightarrow> qt = qt' \<and> i = j"
proof -
  assume "anchorCacheKey qt i = anchorCacheKey qt' j"
  then have "qt @ CHR '':'' # stringOfNat i = qt' @ CHR '':'' # stringOfNat j"
    by (simp add: anchorCacheKey_def)
  then have "qt = qt' \<and> stringOfNat i = stringOfNat j"
    by (rule split_at_last_separator) (rule stringOfNat_no_colon)+
  then show ?thesis using stringOfNat_inj by blast
qed

section \<open>Properties of the scorer\<close>

lemma upt_0_5: "[0..<5] = [0, 1, 2, 3, 4]"
  by (simp add: upt_rec)

lemma length_5E:
  assumes "length xs = 5"
  obtains a b c d e where "xs = [a, b, c, d, e]"
  using assms by (auto simp: length_Suc_conv eval_nat_numeral)

text \<open>For a question type that the catalog defines, \<^verbatim>\<open>scoreAnswer\<close> reads the array.\<close>

lemma scoreAnswer_own:
  assumes "anchorSets this qt = Some sets"
  shows "scoreAnswer providerEmbed this qt ans =
     (if length sets = 0 then (Inl (UnknownQuestionType qt), this)
      else
        (case providerEmbed [Some ans] (provider this) of
           (Inl msg, p') \<Rightarrow> (Inl (ProviderError msg), this\<lparr>provider := p'\<rparr>)
         | (Inr vectors, p') \<Rightarrow>
             (case distributionsLoop providerEmbed qt (elemAt vectors 0) [0..<length sets]
                     (this\<lparr>provider := p'\<rparr>) [] of
                (Inl e, this') \<Rightarrow> (Inl e, this')
              | (Inr distributions, this') \<Rightarrow>
                  (Inr \<lparr> distribution = averageDistributions distributions,
                         expectedScore = expectedScoreOf (averageDistributions distributions),
                         entropy = entropyOf (averageDistributions distributions),
                         anchorSetCount = Some (length sets) \<rparr>,
                   this'))))"
proof -
  have l: "catalogLookup (anchorSets this) qt = AnchorSets sets"
    using assms by (simp add: catalogLookup_def)
  have n: "lengthOf (AnchorSets sets) = Some (length sets)" "loopBound (Some (length sets)) = length sets"
    by (simp_all add: lengthOf_def loopBound_def)
  show ?thesis unfolding scoreAnswer_def Let_def l n by simp
qed

lemma similarities_ok:
  "\<forall>v \<in> set vs. length v = length a \<Longrightarrow>
     similarities (Some a) vs = Inr (map (cosine a) vs)"
  by (induction vs) (auto simp: cosineSimilarity_equal_length cosine_def)

lemma similarityToPmf_isPmf:
  assumes "length sims = 5" "0 < T" "0 \<le> e"
  shows "isPmf (similarityToPmf sims (Some \<lparr>optEpsilon = Some e, optTemperature = Some T\<rparr>))"
proof -
  let ?o = "Some \<lparr>optEpsilon = Some e, optTemperature = Some T\<rparr>"
  have e: "0 \<le> pmfEpsilon ?o" using assms by (simp add: pmfEpsilon_def)
  have ne: "sims \<noteq> []" using assms(1) by auto
  show ?thesis
    using similarityToPmf_pmf_aux[OF ne e] assms(1)
    by (simp add: isPmf_def list_all_iff similarityToPmf_length)
qed

lemma cacheByPair_provider [simp]: "cacheByPair (this\<lparr>provider := p\<rparr>) = cacheByPair this"
  by (simp add: cacheByPair_def)

lemma cacheByPair_update:
  "cacheByPair (this\<lparr>provider := p,
       anchorEmbeddingsCache := (anchorEmbeddingsCache this)(anchorCacheKey qt i \<mapsto> vs)\<rparr>)
     = (cacheByPair this)((qt, i) \<mapsto> vs)"
proof
  fix x :: "string \<times> nat"
  obtain q j where x: "x = (q, j)" by (cases x)
  show "cacheByPair (this\<lparr>provider := p,
       anchorEmbeddingsCache := (anchorEmbeddingsCache this)(anchorCacheKey qt i \<mapsto> vs)\<rparr>) x
     = ((cacheByPair this)((qt, i) \<mapsto> vs)) x"
    using anchorCacheKey_inj[of q j qt i] by (auto simp: cacheByPair_def x)
qed

text \<open>
  The first loop of \<^verbatim>\<open>scoreAnswer\<close> collects the distributions that the specification
  describes, when the provider keeps its contract.
\<close>

lemma distributionsLoop_spec:
  assumes "conforming providerEmbed d" "anchorSets this qt = Some sets"
    and "cacheWellFormed this d" "\<forall>i \<in> set is. i < length sets" "length a = d"
    and "0 \<le> epsilon this" "0 < temperature this"
  shows "\<exists>this'. distributionsLoop providerEmbed qt (Some a) is this ds
            = (Inr (ds @ anchorSetDistributions providerEmbed qt sets a (epsilon this)
                           (temperature this) is (cacheByPair this, provider this)), this')
           \<and> length (anchorSetDistributions providerEmbed qt sets a (epsilon this)
                        (temperature this) is (cacheByPair this, provider this)) = length is
           \<and> (\<forall>p \<in> set (anchorSetDistributions providerEmbed qt sets a (epsilon this)
                        (temperature this) is (cacheByPair this, provider this)). isPmf p)
           \<and> cacheWellFormed this' d \<and> anchorSets this' = anchorSets this"
  using assms
proof (induction "is" arbitrary: this ds)
  case Nil
  then show ?case by simp
next
  case (Cons i rest)
  let ?eps = "epsilon this" and ?T = "temperature this"
  let ?opts = "Some \<lparr>optEpsilon = Some ?eps, optTemperature = Some ?T\<rparr>"
  have i: "i < length sets" using Cons.prems(4) by simp
  show ?case
  proof (cases "anchorEmbeddingsCache this (anchorCacheKey qt i)")
    case (Some cached)
    have g: "getAnchorEmbeddings providerEmbed this qt i = (Inr cached, this)"
      using Some by (simp add: getAnchorEmbeddings_def)
    have c: "length cached = 5" "\<forall>v \<in> set cached. length v = d"
      using Cons.prems(3) Some by (auto simp: cacheWellFormed_def)
    have s: "similarities (Some a) cached = Inr (map (cosine a) cached)"
      using c(2) Cons.prems(5) by (intro similarities_ok) simp
    let ?pmf = "similarityToPmf (map (cosine a) cached) ?opts"
    have pmf: "isPmf ?pmf" using c(1) Cons.prems(6,7) by (intro similarityToPmf_isPmf) simp_all
    have sp: "cacheByPair this (qt, i) = Some cached" using Some by (simp add: cacheByPair_def)
    let ?rest = "anchorSetDistributions providerEmbed qt sets a ?eps ?T rest
                   (cacheByPair this, provider this)"
    obtain this' where
      r: "distributionsLoop providerEmbed qt (Some a) rest this (ds @ [?pmf])
            = (Inr ((ds @ [?pmf]) @ ?rest), this')"
      and r': "length ?rest = length rest" "\<forall>p \<in> set ?rest. isPmf p" "cacheWellFormed this' d"
        "anchorSets this' = anchorSets this"
      using Cons.IH[of this "ds @ [?pmf]"] Cons.prems by auto
    have unfold: "anchorSetDistributions providerEmbed qt sets a ?eps ?T (i # rest)
                    (cacheByPair this, provider this) = ?pmf # ?rest"
      by (simp add: sp)
    have "distributionsLoop providerEmbed qt (Some a) (i # rest) this ds
            = (Inr (ds @ ?pmf # ?rest), this')"
      using g s r by simp
    then show ?thesis unfolding unfold using r' pmf by (intro exI[of _ this']) simp
  next
    case None
    let ?anchors = "map (\<lambda>level. (sets ! i) level) [1, 2, 3, 4, 5]"
    obtain vs p' where e: "providerEmbed ?anchors (provider this) = (Inr vs, p')"
      and l: "length vs = length ?anchors" and dv: "\<forall>v \<in> set vs. length v = d"
      using Cons.prems(1) unfolding conforming_def by blast
    let ?this1 = "this\<lparr>provider := p',
        anchorEmbeddingsCache := (anchorEmbeddingsCache this)(anchorCacheKey qt i \<mapsto> vs)\<rparr>"
    have g: "getAnchorEmbeddings providerEmbed this qt i = (Inr vs, ?this1)"
      using None Cons.prems(2) i e by (simp add: getAnchorEmbeddings_def elemAt_def)
    have wf1: "cacheWellFormed ?this1 d"
      using Cons.prems(3) l dv by (auto simp: cacheWellFormed_def)
    have s: "similarities (Some a) vs = Inr (map (cosine a) vs)"
      using dv Cons.prems(5) by (intro similarities_ok) simp
    let ?pmf = "similarityToPmf (map (cosine a) vs) ?opts"
    have pmf: "isPmf ?pmf" using l Cons.prems(6,7) by (intro similarityToPmf_isPmf) simp_all
    have sp: "cacheByPair this (qt, i) = None" using None by (simp add: cacheByPair_def)
    let ?rest = "anchorSetDistributions providerEmbed qt sets a ?eps ?T rest
                   ((cacheByPair this)((qt, i) \<mapsto> vs), p')"
    have st1: "cacheByPair ?this1 = (cacheByPair this)((qt, i) \<mapsto> vs)" "provider ?this1 = p'"
      "epsilon ?this1 = ?eps" "temperature ?this1 = ?T" "anchorSets ?this1 = anchorSets this"
      by (simp_all add: cacheByPair_update)
    have "\<exists>this'. distributionsLoop providerEmbed qt (Some a) rest ?this1 (ds @ [?pmf])
            = (Inr ((ds @ [?pmf]) @ anchorSetDistributions providerEmbed qt sets a
                  (epsilon ?this1) (temperature ?this1) rest (cacheByPair ?this1, provider ?this1)), this')
           \<and> length (anchorSetDistributions providerEmbed qt sets a
                  (epsilon ?this1) (temperature ?this1) rest (cacheByPair ?this1, provider ?this1))
               = length rest
           \<and> (\<forall>p \<in> set (anchorSetDistributions providerEmbed qt sets a
                  (epsilon ?this1) (temperature ?this1) rest (cacheByPair ?this1, provider ?this1)).
                 isPmf p)
           \<and> cacheWellFormed this' d \<and> anchorSets this' = anchorSets ?this1"
      using Cons.prems wf1 by (intro Cons.IH) simp_all
    then obtain this' where
      r: "distributionsLoop providerEmbed qt (Some a) rest ?this1 (ds @ [?pmf])
            = (Inr ((ds @ [?pmf]) @ ?rest), this')"
      and r': "length ?rest = length rest" "\<forall>p \<in> set ?rest. isPmf p" "cacheWellFormed this' d"
        "anchorSets this' = anchorSets this"
      unfolding st1 by blast
    have unfold: "anchorSetDistributions providerEmbed qt sets a ?eps ?T (i # rest)
                    (cacheByPair this, provider this) = ?pmf # ?rest"
      using e by (simp add: sp)
    have "distributionsLoop providerEmbed qt (Some a) (i # rest) this ds
            = (Inr (ds @ ?pmf # ?rest), this')"
      using g s r by simp
    then show ?thesis unfolding unfold using r' pmf by (intro exI[of _ this']) simp
  qed
qed

lemma addDistribution_Num:
  assumes "length acc = 5" "length d = 5"
  shows "addDistribution n d (map Num acc) = map (\<lambda>i. Num (acc ! i + d ! i / real n)) [0..<5]"
proof -
  obtain a0 a1 a2 a3 a4 where a: "acc = [a0, a1, a2, a3, a4]"
    using assms(1) by (rule length_5E)
  obtain d0 d1 d2 d3 d4 where d: "d = [d0, d1, d2, d3, d4]"
    using assms(2) by (rule length_5E)
  show ?thesis
    by (simp add: a d addDistribution_def upt_0_5 numAdd_def divUndefined_def elemAt_def)
qed

lemma fold_addDistribution:
  assumes "\<forall>d \<in> set ds. length d = 5" "length acc = 5"
  shows "fold (addDistribution n) ds (map Num acc)
           = map (\<lambda>i. Num (acc ! i + (\<Sum>d\<leftarrow>ds. d ! i / real n))) [0..<5]"
  using assms
proof (induction ds arbitrary: acc)
  case Nil
  obtain a0 a1 a2 a3 a4 where a: "acc = [a0, a1, a2, a3, a4]"
    using Nil.prems(2) by (rule length_5E)
  show ?case by (simp add: a upt_0_5)
next
  case (Cons d ds)
  let ?acc' = "map (\<lambda>i. acc ! i + d ! i / real n) [0..<5]"
  have step: "addDistribution n d (map Num acc) = map Num ?acc'"
    using Cons.prems by (simp add: addDistribution_Num comp_def)
  have "fold (addDistribution n) ds (map Num ?acc')
          = map (\<lambda>i. Num (?acc' ! i + (\<Sum>d\<leftarrow>ds. d ! i / real n))) [0..<5]"
    using Cons.prems by (intro Cons.IH) simp_all
  then show ?case
    by (simp add: step upt_0_5 add.assoc)
qed

lemma averageDistributions_Num:
  assumes "\<forall>d \<in> set ds. length d = 5"
  shows "averageDistributions ds = map (\<lambda>i. Num (averageAt ds i)) [0..<5]"
proof -
  have "[Num 0, Num 0, Num 0, Num 0, Num 0] = map Num [0, 0, 0, 0, 0]" by simp
  then have "averageDistributions ds = fold (addDistribution (length ds)) ds (map Num [0, 0, 0, 0, 0])"
    by (simp only: averageDistributions_def)
  also have "\<dots> = map (\<lambda>i. Num ([0, 0, 0, 0, 0] ! i + (\<Sum>d\<leftarrow>ds. d ! i / real (length ds)))) [0..<5]"
    using assms by (intro fold_addDistribution) simp_all
  also have "\<dots> = map (\<lambda>i. Num (averageAt ds i)) [0..<5]"
    by (simp add: upt_0_5 averageAt_def)
  finally show ?thesis .
qed

lemma expectedScoreOf_Num:
  "expectedScoreOf (map (\<lambda>i. Num (f i)) [0..<5])
     = Num (\<Sum>level\<leftarrow>[1..<6]. real level * f (level - 1))"
proof -
  have "[1..<6] = [1, 2, 3, 4, 5::nat]" by (simp add: upt_rec)
  then show ?thesis
    by (simp add: expectedScoreOf_def upt_0_5 numAdd_def numMul_def algebra_simps)
qed

lemma foldl_entropyStep:
  assumes "\<forall>p \<in> set ps. 0 \<le> p"
  shows "foldl entropyStep (Num acc) (map Num ps) = Num (acc - (\<Sum>p\<leftarrow>ps. shannonTerm p))"
  using assms
  by (induction ps arbitrary: acc)
     (auto simp: entropyStep_def numSub_def numMul_def shannonTerm_def algebra_simps)

lemma entropyOf_Num:
  assumes "\<forall>i < 5. 0 \<le> f i"
  shows "entropyOf (map (\<lambda>i. Num (f i)) [0..<5]) = Num (- (\<Sum>i\<leftarrow>[0..<5]. shannonTerm (f i)))"
proof -
  have m: "map (\<lambda>i. Num (f i)) [0..<5] = map Num (map f [0..<5])" by simp
  have nn: "\<forall>p \<in> set (map f [0..<5]). 0 \<le> p" using assms by auto
  have "entropyOf (map (\<lambda>i. Num (f i)) [0..<5]) = foldl entropyStep (Num 0) (map Num (map f [0..<5]))"
    by (simp only: entropyOf_def m)
  also have "\<dots> = Num (0 - (\<Sum>p\<leftarrow>map f [0..<5]. shannonTerm p))"
    using nn by (rule foldl_entropyStep)
  also have "\<dots> = Num (- (\<Sum>i\<leftarrow>[0..<5]. shannonTerm (f i)))"
    by (simp add: comp_def)
  finally show ?thesis .
qed

lemma averageAt_pos:
  assumes "ds \<noteq> []" "\<forall>p \<in> set ds. isPmf p" "i < 5"
  shows "0 < averageAt ds i"
  unfolding averageAt_def
proof (rule sum_list_pos_real)
  show "ds \<noteq> []" by fact
  fix d assume d: "d \<in> set ds"
  then have "isPmf d" using assms(2) by simp
  then have "0 < d ! i" using assms(3) by (simp add: isPmf_def list_all_length)
  moreover have "0 < real (length ds)" using assms(1) by simp
  ultimately show "0 < d ! i / real (length ds)" by simp
qed

lemma sum_list_5: "length p = 5 \<Longrightarrow> sum_list p = (\<Sum>i\<leftarrow>[0..<5]. (p ! i :: real))"
  by (erule length_5E) (simp add: upt_0_5)

lemma averageAt_sum:
  assumes "ds \<noteq> []" "\<forall>p \<in> set ds. isPmf p"
  shows "(\<Sum>i\<leftarrow>[0..<5]. averageAt ds i) = 1"
proof -
  have each: "(\<Sum>i\<leftarrow>[0..<5]. d ! i) = 1" if "d \<in> set ds" for d
    using assms(2) that sum_list_5[of d] by (simp add: isPmf_def)
  have "(\<Sum>i\<leftarrow>[0..<5]. averageAt ds i) = (\<Sum>d\<leftarrow>ds. (\<Sum>i\<leftarrow>[0..<5]. d ! i) / real (length ds))"
    by (simp add: averageAt_def upt_0_5 sum_list_addf add_divide_distrib)
  also have "\<dots> = (\<Sum>d\<leftarrow>ds. 1 / real (length ds))"
    using each by (intro arg_cong[where f = sum_list] map_cong) simp_all
  also have "\<dots> = 1" using assms(1) by (simp add: sum_list_triv)
  finally show ?thesis .
qed

lemma cacheWellFormed_provider [simp]:
  "cacheWellFormed (this\<lparr>provider := p\<rparr>) d = cacheWellFormed this d"
  by (simp add: cacheWellFormed_def)

lemma scoreAnswer_ok:
  assumes "conforming providerEmbed d" "cacheWellFormed this d"
    and "anchorSets this qt = Some sets" "sets \<noteq> []"
    and "0 \<le> epsilon this" "0 < temperature this"
  obtains a p1 ds this' where
    "providerEmbed [Some ans] (provider this) = (Inr [a], p1)"
    "ds = anchorSetDistributions providerEmbed qt sets a (epsilon this) (temperature this)
            [0..<length sets] (cacheByPair this, p1)"
    "scoreAnswer providerEmbed this qt ans =
       (Inr \<lparr>distribution = averageDistributions ds,
             expectedScore = expectedScoreOf (averageDistributions ds),
             entropy = entropyOf (averageDistributions ds),
             anchorSetCount = Some (length sets)\<rparr>, this')"
    "length ds = length sets" "\<forall>p \<in> set ds. isPmf p"
    "cacheWellFormed this' d" "anchorSets this' = anchorSets this"
proof -
  obtain vectors p1 where e: "providerEmbed [Some ans] (provider this) = (Inr vectors, p1)"
    and l: "length vectors = length [Some ans]" and dv: "\<forall>v \<in> set vectors. length v = d"
    using assms(1) unfolding conforming_def by blast
  obtain a where a: "vectors = [a]" using l by (cases vectors) auto
  have ad: "length a = d" using dv a by simp
  have el: "elemAt vectors 0 = Some a" by (simp add: elemAt_def a)
  let ?this1 = "this\<lparr>provider := p1\<rparr>"
  let ?ds = "anchorSetDistributions providerEmbed qt sets a (epsilon this) (temperature this)
               [0..<length sets] (cacheByPair this, p1)"
  have "\<exists>this'. distributionsLoop providerEmbed qt (Some a) [0..<length sets] ?this1 []
            = (Inr ([] @ anchorSetDistributions providerEmbed qt sets a (epsilon ?this1)
                           (temperature ?this1) [0..<length sets]
                           (cacheByPair ?this1, provider ?this1)), this')
           \<and> length (anchorSetDistributions providerEmbed qt sets a (epsilon ?this1)
                        (temperature ?this1) [0..<length sets]
                        (cacheByPair ?this1, provider ?this1)) = length [0..<length sets]
           \<and> (\<forall>p \<in> set (anchorSetDistributions providerEmbed qt sets a (epsilon ?this1)
                        (temperature ?this1) [0..<length sets]
                        (cacheByPair ?this1, provider ?this1)). isPmf p)
           \<and> cacheWellFormed this' d \<and> anchorSets this' = anchorSets ?this1"
    using assms ad by (intro distributionsLoop_spec[where sets = sets]) simp_all
  then obtain this' where
    loop: "distributionsLoop providerEmbed qt (Some a) [0..<length sets] ?this1 [] = (Inr ?ds, this')"
    and props: "length ?ds = length sets" "\<forall>p \<in> set ?ds. isPmf p" "cacheWellFormed this' d"
      "anchorSets this' = anchorSets this"
    by auto
  have "scoreAnswer providerEmbed this qt ans =
       (Inr \<lparr>distribution = averageDistributions ?ds,
             expectedScore = expectedScoreOf (averageDistributions ?ds),
             entropy = entropyOf (averageDistributions ?ds),
             anchorSetCount = Some (length sets)\<rparr>, this')"
    using assms(4) e el loop by (simp add: scoreAnswer_own[OF assms(3)])
  then show ?thesis using that[of a p1 ?ds this'] e a props by simp
qed

lemma expected_bounds:
  fixes f :: "nat \<Rightarrow> real"
  assumes "\<forall>i < 5. 0 \<le> f i" "(\<Sum>i\<leftarrow>[0..<5]. f i) = 1"
  shows "1 \<le> (\<Sum>level\<leftarrow>[1..<6]. real level * f (level - 1))"
    and "(\<Sum>level\<leftarrow>[1..<6]. real level * f (level - 1)) \<le> 5"
proof -
  have u: "[1..<6] = [1, 2, 3, 4, 5::nat]" by (simp add: upt_rec)
  have p: "0 \<le> f 0" "0 \<le> f 1" "0 \<le> f 2" "0 \<le> f 3" "0 \<le> f 4" using assms(1) by simp_all
  have s: "f 0 + f 1 + f 2 + f 3 + f 4 = 1" using assms(2) by (simp add: upt_0_5)
  have E: "(\<Sum>level\<leftarrow>[1..<6]. real level * f (level - 1))
             = f 0 + 2 * f 1 + 3 * f 2 + 4 * f 3 + 5 * f 4"
    unfolding u by simp
  show "1 \<le> (\<Sum>level\<leftarrow>[1..<6]. real level * f (level - 1))"
    unfolding E using p s by linarith
  show "(\<Sum>level\<leftarrow>[1..<6]. real level * f (level - 1)) \<le> 5"
    unfolding E using p s by linarith
qed

lemma shannonTerm_nonpos: "0 \<le> p \<Longrightarrow> p \<le> 1 \<Longrightarrow> shannonTerm p \<le> 0"
  by (auto simp: shannonTerm_def mult_le_0_iff zero_le_mult_iff intro!: mult_nonneg_nonpos)

lemma shannonTerm_gibbs:
  assumes "0 < p" "0 < n"
  shows "- shannonTerm p \<le> p * log 2 n + (1 / n - p) / ln 2"
proof -
  have "ln (1 / (n * p)) \<le> 1 / (n * p) - 1"
    using assms by (intro ln_le_minus_one) simp
  then have "- ln n - ln p \<le> 1 / (n * p) - 1"
    using assms by (simp add: ln_div ln_mult)
  then have "p * (- ln n - ln p) \<le> p * (1 / (n * p) - 1)"
    using assms(1) by (intro mult_left_mono) simp_all
  also have "\<dots> = 1 / n - p" using assms by (simp add: field_simps)
  finally have "- (p * ln p) \<le> p * ln n + (1 / n - p)" by (simp add: algebra_simps)
  then have "- (p * ln p) / ln 2 \<le> (p * ln n + (1 / n - p)) / ln 2"
    by (intro divide_right_mono) simp_all
  then show ?thesis using assms(1) by (simp add: shannonTerm_def log_def add_divide_distrib)
qed

text \<open>
  Claim C1.  For a question type that the catalog has with at least one anchor set (and a
  provider that keeps its contract), \<^verbatim>\<open>scoreAnswer\<close> returns a result; with \<open>N\<close> the number
  of the anchor sets and \<open>distributions\<close> the \<open>N\<close> distributions of the anchor sets as the
  specification describes them (for each anchor set, the five cosines between the
  embedding of the answer and the embeddings of its five statements, converted by
  \<^verbatim>\<open>similarityToPmf\<close>), the distribution of the result is their average with the weight
  \<open>1/N\<close> each, its expected score is the sum over the levels 1 to 5 of the level times the
  averaged probability, its entropy is minus the sum of \<open>p * log2 p\<close> with
  \<open>0 * log2 0 = 0\<close>, and its count of anchor sets is \<open>N\<close>.
\<close>

theorem scoreAnswer_result:
  assumes "conforming providerEmbed d" "cacheWellFormed this d"
    and "anchorSets this questionType = Some sets" "sets \<noteq> []"
    and "0 \<le> epsilon this" "0 < temperature this"
  shows "\<exists>result this' answerEmbedding p1 distributions.
           providerEmbed [Some freeTextAnswer] (provider this) = (Inr [answerEmbedding], p1)
         \<and> distributions
             = anchorSetDistributions providerEmbed questionType sets answerEmbedding
                 (epsilon this) (temperature this) [0..<length sets] (cacheByPair this, p1)
         \<and> length distributions = length sets
         \<and> scoreAnswer providerEmbed this questionType freeTextAnswer = (Inr result, this')
         \<and> distribution result = map (\<lambda>i. Num (averageAt distributions i)) [0..<5]
         \<and> expectedScore result
             = Num (\<Sum>level\<leftarrow>[1..<6]. real level * averageAt distributions (level - 1))
         \<and> entropy result = Num (- (\<Sum>i\<leftarrow>[0..<5]. shannonTerm (averageAt distributions i)))
         \<and> anchorSetCount result = Some (length sets)"
proof -
  obtain a p1 ds this' where
    e: "providerEmbed [Some freeTextAnswer] (provider this) = (Inr [a], p1)"
    and ds: "ds = anchorSetDistributions providerEmbed questionType sets a (epsilon this)
                    (temperature this) [0..<length sets] (cacheByPair this, p1)"
    and r: "scoreAnswer providerEmbed this questionType freeTextAnswer =
       (Inr \<lparr>distribution = averageDistributions ds,
             expectedScore = expectedScoreOf (averageDistributions ds),
             entropy = entropyOf (averageDistributions ds),
             anchorSetCount = Some (length sets)\<rparr>, this')"
    and len: "length ds = length sets" and pmf: "\<forall>p \<in> set ds. isPmf p"
    using scoreAnswer_ok[OF assms, where ans = freeTextAnswer] by metis
  have l5: "\<forall>d \<in> set ds. length d = 5" using pmf by (simp add: isPmf_def)
  have ne: "ds \<noteq> []" using len assms(4) by auto
  have avg: "averageDistributions ds = map (\<lambda>i. Num (averageAt ds i)) [0..<5]"
    using l5 by (rule averageDistributions_Num)
  have nn: "\<forall>i < 5. 0 \<le> averageAt ds i"
    using averageAt_pos[OF ne pmf] by (auto intro: less_imp_le)
  have ex: "expectedScoreOf (averageDistributions ds)
      = Num (\<Sum>level\<leftarrow>[1..<6]. real level * averageAt ds (level - 1))"
    unfolding avg by (rule expectedScoreOf_Num)
  have en: "entropyOf (averageDistributions ds)
      = Num (- (\<Sum>i\<leftarrow>[0..<5]. shannonTerm (averageAt ds i)))"
    unfolding avg using nn by (rule entropyOf_Num)
  show ?thesis
    using e ds r len avg ex en by (intro exI[of _ _] conjI) auto
qed

subsection \<open>The scorer on a provider with one vector\<close>

lemma cosineSimilarity_unit: "cosineSimilarity [1, 0] [1, 0] = Inr 1"
  by (simp add: cosineSimilarity_def cosineStep_def)

lemma similarities_unit:
  "similarities (Some [1, 0]) (map (\<lambda>t. [1, 0]) texts) = Inr (map (\<lambda>t. 1) texts)"
  by (induction texts) (simp_all add: cosineSimilarity_unit)

lemma similarityToPmf_equal:
  assumes "0 \<le> e"
  shows "similarityToPmf [1, 1, 1, 1, 1] (Some \<lparr>optEpsilon = Some e, optTemperature = Some 1\<rparr>)
     = uniformDistribution"
proof -
  have nz: "5 + e * 5 \<noteq> 0" using assms by (simp add: add_pos_nonneg add_eq_0_iff_both_eq_0)
  have "1 + e = (1 / 5) * (5 + e * 5)" by simp
  then have "(1 + e) / (5 + e * 5) = ((1 / 5) * (5 + e * 5)) / (5 + e * 5)" by (simp only:)
  also have "\<dots> = 1 / 5" using nz by (rule nonzero_mult_div_cancel_right)
  finally have fifth: "(1 + e) / (5 + e * 5) = 1 / 5" .
  have "4 + 4 * e = (4 / 5) * (5 + e * 5)" by simp
  then have "(4 + 4 * e) / (5 + e * 5) = ((4 / 5) * (5 + e * 5)) / (5 + e * 5)" by (simp only:)
  also have "\<dots> = 4 / 5" using nz by (rule nonzero_mult_div_cancel_right)
  finally have four: "(4 + 4 * e) / (5 + e * 5) = 4 / 5" .
  show ?thesis
    by (simp add: similarityToPmf_def pmfEpsilon_def pmfTemperature_def Let_def
        uniformDistribution_def nz four fifth)
qed

lemma getAnchorEmbeddings_constant:
  assumes "\<forall>k vs. anchorEmbeddingsCache this k = Some vs \<longrightarrow> vs = map (\<lambda>t. [1, 0]) [1 ..< 6 :: nat]"
    and "anchorSets this qt = Some sets" "i < length sets"
  shows "\<exists>this'. getAnchorEmbeddings constantProvider this qt i
                    = (Inr (map (\<lambda>t. [1, 0]) [1 ..< 6 :: nat]), this')
          \<and> (\<forall>k vs. anchorEmbeddingsCache this' k = Some vs \<longrightarrow> vs = map (\<lambda>t. [1, 0]) [1 ..< 6 :: nat])
          \<and> anchorSets this' = anchorSets this \<and> epsilon this' = epsilon this
          \<and> temperature this' = temperature this"
proof -
  have u: "[1 ..< 6] = [1, 2, 3, 4, 5 :: nat]" by (simp add: upt_rec)
  show ?thesis
    using assms unfolding u
    by (auto simp: getAnchorEmbeddings_def Let_def elemAt_def constantProvider_def
        split: option.splits)
qed

lemma distributionsLoop_constant:
  assumes "\<forall>k vs. anchorEmbeddingsCache this k = Some vs \<longrightarrow> vs = map (\<lambda>t. [1, 0]) [1 ..< 6 :: nat]"
    and "anchorSets this qt = Some sets" "\<forall>i \<in> set is. i < length sets"
    and "0 \<le> epsilon this" "temperature this = 1"
  shows "\<exists>this'. distributionsLoop constantProvider qt (Some [1, 0]) is this ds
                   = (Inr (ds @ replicate (length is) uniformDistribution), this')
          \<and> (\<forall>k vs. anchorEmbeddingsCache this' k = Some vs \<longrightarrow> vs = map (\<lambda>t. [1, 0]) [1 ..< 6 :: nat])
          \<and> anchorSets this' = anchorSets this \<and> epsilon this' = epsilon this
          \<and> temperature this' = temperature this"
  using assms
proof (induction "is" arbitrary: this ds)
  case Nil
  then show ?case by simp
next
  case (Cons i rest)
  have i: "i < length sets" using Cons.prems(3) by simp
  obtain this1 where
    g: "getAnchorEmbeddings constantProvider this qt i = (Inr (map (\<lambda>t. [1, 0]) [1 ..< 6 :: nat]), this1)"
    and c1: "\<forall>k vs. anchorEmbeddingsCache this1 k = Some vs \<longrightarrow> vs = map (\<lambda>t. [1, 0]) [1 ..< 6 :: nat]"
    and same: "anchorSets this1 = anchorSets this" "epsilon this1 = epsilon this"
      "temperature this1 = temperature this"
    using getAnchorEmbeddings_constant[OF Cons.prems(1,2) i] by blast
  have s: "similarities (Some [1, 0]) (map (\<lambda>t. [1, 0]) [1 ..< 6 :: nat]) = Inr [1, 1, 1, 1, 1]"
    unfolding similarities_unit by (simp add: upt_rec)
  have pmf: "similarityToPmf [1, 1, 1, 1, 1]
               (Some \<lparr>optEpsilon = Some (epsilon this1), optTemperature = Some (temperature this1)\<rparr>)
             = uniformDistribution"
    using similarityToPmf_equal[of "epsilon this"] Cons.prems(4,5) same by simp
  obtain this' where
    r: "distributionsLoop constantProvider qt (Some [1, 0]) rest this1 (ds @ [uniformDistribution])
          = (Inr ((ds @ [uniformDistribution]) @ replicate (length rest) uniformDistribution), this')"
    and c': "\<forall>k vs. anchorEmbeddingsCache this' k = Some vs \<longrightarrow> vs = map (\<lambda>t. [1, 0]) [1 ..< 6 :: nat]"
    and same': "anchorSets this' = anchorSets this1" "epsilon this' = epsilon this1"
      "temperature this' = temperature this1"
    using Cons.IH[of this1 "ds @ [uniformDistribution]"] c1 same Cons.prems by auto
  have "distributionsLoop constantProvider qt (Some [1, 0]) (i # rest) this ds
          = (Inr (ds @ replicate (length (i # rest)) uniformDistribution), this')"
    using g s r by (simp add: pmf replicate_app_Cons_same del: similarities.simps)
  then show ?case using c' same same' by (intro exI[of _ this']) simp
qed

lemma averageAt_replicate:
  "0 < n \<Longrightarrow> averageAt (replicate n d) i = d ! i"
  by (simp add: averageAt_def sum_list_replicate)

lemma uniform_entropy: "entropyOf (map Num [1 / 5, 1 / 5, 1 / 5, 1 / 5, 1 / 5]) = Num (log 2 5)"
proof -
  have "log 2 (1 / 5) = - log 2 5" by (simp add: log_divide)
  then show ?thesis
    by (simp add: entropyOf_def entropyStep_def numSub_def numMul_def)
qed

lemma averageDistributions_uniform:
  "0 < n \<Longrightarrow> averageDistributions (replicate n uniformDistribution) = map Num uniformDistribution"
proof -
  assume n: "0 < n"
  let ?ds = "replicate n uniformDistribution"
  have l5: "\<forall>d \<in> set ?ds. length d = 5" by (simp add: uniformDistribution_def)
  have "averageDistributions ?ds = map (\<lambda>i. Num (averageAt ?ds i)) [0..<5]"
    using l5 by (rule averageDistributions_Num)
  also have "\<dots> = map Num uniformDistribution"
    using n by (simp add: averageAt_replicate upt_0_5 uniformDistribution_def)
  finally show ?thesis .
qed

lemma expectedScoreOf_uniform: "expectedScoreOf (map Num uniformDistribution) = Num 3"
  by (simp add: expectedScoreOf_def uniformDistribution_def upt_0_5 numAdd_def numMul_def)

lemma entropyOf_uniform: "entropyOf (map Num uniformDistribution) = Num (log 2 5)"
  unfolding uniformDistribution_def by (rule uniform_entropy)

text \<open>
  On the provider with one vector, every question type that the catalog has with six
  anchor sets gets the uniform distribution, from any state of the scorer that this
  provider filled.
\<close>

lemma scoreAnswer_constant:
  assumes "\<forall>k vs. anchorEmbeddingsCache this k = Some vs \<longrightarrow> vs = map (\<lambda>t. [1, 0]) [1 ..< 6 :: nat]"
    and "anchorSets this qt = Some sets" "length sets = 6"
    and "0 \<le> epsilon this" "temperature this = 1"
  shows "\<exists>this'. scoreAnswer constantProvider this qt ans
                   = (Inr \<lparr> distribution = map Num uniformDistribution, expectedScore = Num 3,
                            entropy = Num (log 2 5), anchorSetCount = Some 6 \<rparr>, this')
          \<and> (\<forall>k vs. anchorEmbeddingsCache this' k = Some vs \<longrightarrow> vs = map (\<lambda>t. [1, 0]) [1 ..< 6 :: nat])
          \<and> anchorSets this' = anchorSets this \<and> epsilon this' = epsilon this
          \<and> temperature this' = temperature this"
proof -
  let ?this1 = "this\<lparr>provider := Suc (provider this)\<rparr>"
  have e: "constantProvider [Some ans] (provider this) = (Inr [[1, 0]], Suc (provider this))"
    by (simp add: constantProvider_def)
  obtain this' where
    loop: "distributionsLoop constantProvider qt (Some [1, 0]) [0..<length sets] ?this1 []
             = (Inr ([] @ replicate (length [0..<length sets]) uniformDistribution), this')"
    and c': "\<forall>k vs. anchorEmbeddingsCache this' k = Some vs \<longrightarrow> vs = map (\<lambda>t. [1, 0]) [1 ..< 6 :: nat]"
    and same': "anchorSets this' = anchorSets ?this1" "epsilon this' = epsilon ?this1"
      "temperature this' = temperature ?this1"
    using distributionsLoop_constant[of ?this1 qt sets "[0..<length sets]" "[]"] assms by auto
  have "scoreAnswer constantProvider this qt ans
          = (Inr \<lparr> distribution = map Num uniformDistribution, expectedScore = Num 3,
                   entropy = Num (log 2 5), anchorSetCount = Some 6 \<rparr>, this')"
    using e loop assms(3)
    by (simp add: scoreAnswer_own[OF assms(2)] elemAt_def averageDistributions_uniform
        expectedScoreOf_uniform entropyOf_uniform)
  then show ?thesis using c' same' by (intro exI[of _ this']) simp
qed

lemma conforming_constantProvider: "conforming constantProvider 2"
  by (simp add: conforming_def constantProvider_def)

lemma defaultScorer_simps:
  "anchorSets (newSsrScorer \<lparr>optProvider = p, optAnchorSets = None, optScorerEpsilon = None,
                              optScorerTemperature = None\<rparr>) = DEFAULT_ANCHOR_SETS"
  "epsilon (newSsrScorer \<lparr>optProvider = p, optAnchorSets = None, optScorerEpsilon = None,
                           optScorerTemperature = None\<rparr>) = 1 / 10 ^ 8"
  "temperature (newSsrScorer \<lparr>optProvider = p, optAnchorSets = None, optScorerEpsilon = None,
                               optScorerTemperature = None\<rparr>) = 1"
  "anchorEmbeddingsCache (newSsrScorer \<lparr>optProvider = p, optAnchorSets = None,
       optScorerEpsilon = None, optScorerTemperature = None\<rparr>) = Map.empty"
  "provider (newSsrScorer \<lparr>optProvider = p, optAnchorSets = None, optScorerEpsilon = None,
                            optScorerTemperature = None\<rparr>) = p"
  by (simp_all add: newSsrScorer_def)

lemma cacheWellFormed_new: "cacheWellFormed (newSsrScorer options) d"
  by (simp add: cacheWellFormed_def newSsrScorer_def)

lemma DEFAULT_unknown: "q \<noteq> ''ease'' \<Longrightarrow> q \<noteq> ''trust'' \<Longrightarrow> DEFAULT_ANCHOR_SETS q = None"
  by (simp add: DEFAULT_ANCHOR_SETS_def)

lemma DEFAULT_ease: "DEFAULT_ANCHOR_SETS ''ease'' = Some easeAnchorSets"
  by (simp add: DEFAULT_ANCHOR_SETS_def)

lemma easeAnchorSets_length: "length easeAnchorSets = 6"
  by (simp add: easeAnchorSets_def)

lemma DEFAULT_trust: "DEFAULT_ANCHOR_SETS ''trust'' = Some trustAnchorSets"
  by (simp add: DEFAULT_ANCHOR_SETS_def)

lemma trustAnchorSets_length: "length trustAnchorSets = 6"
  by (simp add: trustAnchorSets_def)

theorem scoreAnswer_result_witness:
  "conforming constantProvider 2
   \<and> cacheWellFormed exampleScorer 2
   \<and> anchorSets exampleScorer ''ease'' = Some easeAnchorSets
   \<and> easeAnchorSets \<noteq> []
   \<and> 0 \<le> epsilon exampleScorer
   \<and> 0 < temperature exampleScorer
   \<and> (\<exists>result this' answerEmbedding p1 distributions.
           constantProvider [Some ''fine''] (provider exampleScorer) = (Inr [answerEmbedding], p1)
         \<and> distributions
             = anchorSetDistributions constantProvider ''ease'' easeAnchorSets answerEmbedding
                 (epsilon exampleScorer) (temperature exampleScorer) [0..<length easeAnchorSets]
                 (cacheByPair exampleScorer, p1)
         \<and> length distributions = 6
         \<and> scoreAnswer constantProvider exampleScorer ''ease'' ''fine'' = (Inr result, this')
         \<and> distribution result = map (\<lambda>i. Num (averageAt distributions i)) [0..<5]
         \<and> expectedScore result
             = Num (\<Sum>level\<leftarrow>[1..<6]. real level * averageAt distributions (level - 1))
         \<and> entropy result = Num (- (\<Sum>i\<leftarrow>[0..<5]. shannonTerm (averageAt distributions i)))
         \<and> anchorSetCount result = Some 6
         \<and> distribution result = map Num uniformDistribution
         \<and> expectedScore result = Num 3
         \<and> entropy result = Num (log 2 5))"
proof -
  have h1: "conforming constantProvider 2" by (rule conforming_constantProvider)
  have h2: "cacheWellFormed exampleScorer 2"
    unfolding exampleScorer_def by (rule cacheWellFormed_new)
  have h3: "anchorSets exampleScorer ''ease'' = Some easeAnchorSets"
    by (simp add: exampleScorer_def defaultScorer_simps DEFAULT_ease)
  have h4: "easeAnchorSets \<noteq> []" using easeAnchorSets_length by auto
  have h5: "0 \<le> epsilon exampleScorer" by (simp add: exampleScorer_def defaultScorer_simps)
  have h6: "0 < temperature exampleScorer" by (simp add: exampleScorer_def defaultScorer_simps)
  have c: "\<forall>k vs. anchorEmbeddingsCache exampleScorer k = Some vs
             \<longrightarrow> vs = map (\<lambda>t. [1, 0]) [1 ..< 6 :: nat]"
    by (simp add: exampleScorer_def defaultScorer_simps)
  have t: "temperature exampleScorer = 1" by (simp add: exampleScorer_def defaultScorer_simps)
  obtain this1 where
    v: "scoreAnswer constantProvider exampleScorer ''ease'' ''fine''
          = (Inr \<lparr> distribution = map Num uniformDistribution, expectedScore = Num 3,
                   entropy = Num (log 2 5), anchorSetCount = Some 6 \<rparr>, this1)"
    using scoreAnswer_constant[OF c h3 easeAnchorSets_length h5 t, of "''fine''"] by blast
  obtain result this' answerEmbedding p1 distributions where r:
    "constantProvider [Some ''fine''] (provider exampleScorer) = (Inr [answerEmbedding], p1)"
    "distributions
       = anchorSetDistributions constantProvider ''ease'' easeAnchorSets answerEmbedding
           (epsilon exampleScorer) (temperature exampleScorer) [0..<length easeAnchorSets]
           (cacheByPair exampleScorer, p1)"
    "length distributions = length easeAnchorSets"
    "scoreAnswer constantProvider exampleScorer ''ease'' ''fine'' = (Inr result, this')"
    "distribution result = map (\<lambda>i. Num (averageAt distributions i)) [0..<5]"
    "expectedScore result
       = Num (\<Sum>level\<leftarrow>[1..<6]. real level * averageAt distributions (level - 1))"
    "entropy result = Num (- (\<Sum>i\<leftarrow>[0..<5]. shannonTerm (averageAt distributions i)))"
    "anchorSetCount result = Some (length easeAnchorSets)"
    using scoreAnswer_result[OF h1 h2 h3 h4 h5 h6, of "''fine''"] by blast
  have concrete: "distribution result = map Num uniformDistribution" "expectedScore result = Num 3"
    "entropy result = Num (log 2 5)"
    using v r(4) by auto
  have "\<exists>result this' answerEmbedding p1 distributions.
           constantProvider [Some ''fine''] (provider exampleScorer) = (Inr [answerEmbedding], p1)
         \<and> distributions
             = anchorSetDistributions constantProvider ''ease'' easeAnchorSets answerEmbedding
                 (epsilon exampleScorer) (temperature exampleScorer) [0..<length easeAnchorSets]
                 (cacheByPair exampleScorer, p1)
         \<and> length distributions = 6
         \<and> scoreAnswer constantProvider exampleScorer ''ease'' ''fine'' = (Inr result, this')
         \<and> distribution result = map (\<lambda>i. Num (averageAt distributions i)) [0..<5]
         \<and> expectedScore result
             = Num (\<Sum>level\<leftarrow>[1..<6]. real level * averageAt distributions (level - 1))
         \<and> entropy result = Num (- (\<Sum>i\<leftarrow>[0..<5]. shannonTerm (averageAt distributions i)))
         \<and> anchorSetCount result = Some 6
         \<and> distribution result = map Num uniformDistribution
         \<and> expectedScore result = Num 3
         \<and> entropy result = Num (log 2 5)"
    using r concrete unfolding easeAnchorSets_length
    by (intro exI[of _ result] exI[of _ this'] exI[of _ answerEmbedding] exI[of _ p1]
        exI[of _ distributions]) simp
  then show ?thesis using h1 h2 h3 h4 h5 h6 by blast
qed

subsection \<open>What a call leaves unchanged, and how it fails\<close>

lemma getAnchorEmbeddings_anchorSets:
  "getAnchorEmbeddings providerEmbed this qt i = (r, this') \<Longrightarrow> anchorSets this' = anchorSets this"
  by (auto simp: getAnchorEmbeddings_def Let_def split: option.splits prod.splits sum.splits)

lemma distributionsLoop_anchorSets:
  "distributionsLoop providerEmbed qt ae is this ds = (r, this') \<Longrightarrow> anchorSets this' = anchorSets this"
proof (induction "is" arbitrary: this ds)
  case Nil
  then show ?case by simp
next
  case (Cons i rest)
  obtain g this1 where g: "getAnchorEmbeddings providerEmbed this qt i = (g, this1)"
    by (cases "getAnchorEmbeddings providerEmbed this qt i")
  have a1: "anchorSets this1 = anchorSets this" using g by (rule getAnchorEmbeddings_anchorSets)
  show ?case
    using Cons.prems g a1 Cons.IH
    by (auto split: sum.splits simp: Let_def)
qed

lemma scoreAnswer_anchorSets:
  "scoreAnswer providerEmbed this qt ans = (r, this') \<Longrightarrow> anchorSets this' = anchorSets this"
  by (auto simp: scoreAnswer_def Let_def split: if_splits prod.splits sum.splits
      dest: distributionsLoop_anchorSets)

lemma getAnchorEmbeddings_error:
  "getAnchorEmbeddings providerEmbed this questionType i = (Inl e, this')
     \<Longrightarrow> e = NoAnchorSetFound questionType i \<or> (\<exists>msg. e = ProviderError msg)"
  by (auto simp: getAnchorEmbeddings_def Let_def split: option.splits prod.splits sum.splits)

lemma similarities_error:
  "similarities answerEmbedding anchors = Inl e \<Longrightarrow> e = TypeError \<or> e = DimensionMismatch"
  by (induction anchors)
     (auto simp: cosineSimilarity_def Let_def split: option.splits sum.splits if_splits prod.splits)

lemma distributionsLoop_error:
  "distributionsLoop providerEmbed questionType answerEmbedding is this ds = (Inl e, this')
     \<Longrightarrow> e \<noteq> UnknownQuestionType q"
proof (induction "is" arbitrary: this ds)
  case Nil
  then show ?case by simp
next
  case (Cons i rest)
  then show ?case
    by (auto split: prod.splits sum.splits
        dest!: getAnchorEmbeddings_error similarities_error)
qed

lemma catalogLookup_plain:
  "catalog key = None \<Longrightarrow> objectPrototype key = None \<Longrightarrow> catalogLookup catalog key = Undefined"
  by (simp add: catalogLookup_def)

lemma scoreAnswer_no_entry:
  "anchorSets this qt = None \<Longrightarrow> objectPrototype qt = None
     \<Longrightarrow> scoreAnswer providerEmbed this qt ans = (Inl (UnknownQuestionType qt), this)"
  by (simp add: scoreAnswer_def catalogLookup_plain)

text \<open>
  The error of an unknown question type is thrown exactly when the value read from the
  catalog is \<^verbatim>\<open>undefined\<close> or has the length \<open>0\<close>.
\<close>

lemma scoreAnswer_unknown_exactly:
  "(\<exists>q. fst (scoreAnswer providerEmbed this questionType freeTextAnswer)
          = Inl (UnknownQuestionType q))
     \<longleftrightarrow> (catalogLookup (anchorSets this) questionType = Undefined
          \<or> lengthOf (catalogLookup (anchorSets this) questionType) = Some 0)"
proof (cases "catalogLookup (anchorSets this) questionType = Undefined
          \<or> lengthOf (catalogLookup (anchorSets this) questionType) = Some 0")
  case True
  then show ?thesis by (auto simp: scoreAnswer_def)
next
  case False
  have "fst (scoreAnswer providerEmbed this questionType freeTextAnswer)
          \<noteq> Inl (UnknownQuestionType q)" for q
    using False
    by (auto simp: scoreAnswer_def Let_def split: prod.splits sum.splits
        dest: distributionsLoop_error)
  then show ?thesis using False by simp
qed

text \<open>
  For a question type that is no property of \<^verbatim>\<open>Object.prototype\<close>, that is when the catalog
  has no entry for it or the entry is the empty list.
\<close>

lemma scoreAnswer_unknown_plain:
  assumes "objectPrototype questionType = None"
  shows "(\<exists>q. fst (scoreAnswer providerEmbed this questionType freeTextAnswer)
          = Inl (UnknownQuestionType q))
     \<longleftrightarrow> (anchorSets this questionType = None \<or> anchorSets this questionType = Some [])"
  unfolding scoreAnswer_unknown_exactly using assms
  by (auto simp: catalogLookup_def lengthOf_def split: option.splits)

text \<open>
  The question type \<^verbatim>\<open>__proto__\<close>, when the catalog does not define it: the value read is
  \<^verbatim>\<open>Object.prototype\<close>, the answer is embedded, the loop over the anchor sets does not run,
  and the result is made of no distribution.
\<close>

lemma averageDistributions_Nil: "averageDistributions [] = [Num 0, Num 0, Num 0, Num 0, Num 0]"
  by (simp add: averageDistributions_def)

lemma expectedScoreOf_zero: "expectedScoreOf [Num 0, Num 0, Num 0, Num 0, Num 0] = Num 0"
  by (simp add: expectedScoreOf_def upt_0_5 numAdd_def numMul_def)

lemma entropyOf_zero: "entropyOf [Num 0, Num 0, Num 0, Num 0, Num 0] = Num 0"
  by (simp add: entropyOf_def entropyStep_def)

lemma catalogLookup_proto:
  "catalog ''__proto__'' = None
     \<Longrightarrow> catalogLookup catalog ''__proto__'' = Inherited InheritedPrototype"
  by (simp add: catalogLookup_def objectPrototype_def)

lemma scoreAnswer_proto:
  assumes "anchorSets this ''__proto__'' = None"
    and "providerEmbed [Some ans] (provider this) = (Inr vectors, p')"
  shows "scoreAnswer providerEmbed this ''__proto__'' ans
           = (Inr \<lparr> distribution = [Num 0, Num 0, Num 0, Num 0, Num 0], expectedScore = Num 0,
                    entropy = Num 0, anchorSetCount = None \<rparr>, this\<lparr>provider := p'\<rparr>)"
proof -
  have l: "catalogLookup (anchorSets this) ''__proto__'' = Inherited InheritedPrototype"
    using assms(1) by (rule catalogLookup_proto)
  have n: "lengthOf (Inherited InheritedPrototype) = None" "loopBound None = 0"
    by (simp_all add: lengthOf_def loopBound_def)
  show ?thesis
    unfolding scoreAnswer_def Let_def l n
    by (simp add: assms(2) averageDistributions_Nil expectedScoreOf_zero entropyOf_zero)
qed

text \<open>
  A question type that names an inherited function of a length above \<open>0\<close>: the answer is
  embedded, and the first anchor set is not found.
\<close>

lemma scoreAnswer_inherited_function:
  assumes "anchorSets this qt = None" "objectPrototype qt = Some (InheritedFunction name (Suc n))"
    and "providerEmbed [Some ans] (provider this) = (Inr vectors, p')"
    and "anchorEmbeddingsCache this (anchorCacheKey qt 0) = None"
  shows "scoreAnswer providerEmbed this qt ans
           = (Inl (NoAnchorSetFound qt 0), this\<lparr>provider := p'\<rparr>)"
proof -
  have l: "catalogLookup (anchorSets this) qt = Inherited (InheritedFunction name (Suc n))"
    using assms(1,2) by (simp add: catalogLookup_def)
  have n: "lengthOf (Inherited (InheritedFunction name (Suc n))) = Some (Suc n)"
    "loopBound (Some (Suc n)) = Suc n"
    by (simp_all add: lengthOf_def loopBound_def)
  have g: "getAnchorEmbeddings providerEmbed (this\<lparr>provider := p'\<rparr>) qt 0
             = (Inl (NoAnchorSetFound qt 0), this\<lparr>provider := p'\<rparr>)"
    using assms(1,4) by (simp add: getAnchorEmbeddings_def)
  have u: "[0..<Suc n] = 0 # [Suc 0..<Suc n]" by (rule upt_conv_Cons) simp
  show ?thesis
    unfolding scoreAnswer_def Let_def l n u
    using g by (simp add: assms(3) del: upt_Suc)
qed

text \<open>
  Claim C4.  The claim is that \<^verbatim>\<open>scoreAnswer\<close> throws the error of an unknown question type
  exactly when the catalog has no entry for the question type or the entry is the empty
  list.  The default catalog has no entry for \<^verbatim>\<open>__proto__\<close> and none for \<^verbatim>\<open>constructor\<close>.
  For \<^verbatim>\<open>__proto__\<close> the call throws nothing and returns a result, and for \<^verbatim>\<open>constructor\<close> it
  embeds the answer and throws the error of an anchor set that is not found.
\<close>

theorem scoreAnswer_inherited_not_unknown:
  "anchorSets exampleScorer = DEFAULT_ANCHOR_SETS
   \<and> DEFAULT_ANCHOR_SETS ''__proto__'' = None
   \<and> DEFAULT_ANCHOR_SETS ''constructor'' = None
   \<and> scoreAnswer constantProvider exampleScorer ''__proto__'' ''text''
       = (Inr \<lparr> distribution = [Num 0, Num 0, Num 0, Num 0, Num 0], expectedScore = Num 0,
                entropy = Num 0, anchorSetCount = None \<rparr>, exampleScorer\<lparr>provider := 1\<rparr>)
   \<and> scoreAnswer constantProvider exampleScorer ''constructor'' ''text''
       = (Inl (NoAnchorSetFound ''constructor'' 0), exampleScorer\<lparr>provider := 1\<rparr>)"
proof -
  have a: "anchorSets exampleScorer = DEFAULT_ANCHOR_SETS"
    by (simp add: exampleScorer_def defaultScorer_simps)
  have p: "DEFAULT_ANCHOR_SETS ''__proto__'' = None" by (simp add: DEFAULT_unknown)
  have c: "DEFAULT_ANCHOR_SETS ''constructor'' = None" by (simp add: DEFAULT_unknown)
  have e: "constantProvider [Some ''text''] (provider exampleScorer) = (Inr [[1, 0]], 1)"
    by (simp add: constantProvider_def exampleScorer_def defaultScorer_simps)
  have 1: "scoreAnswer constantProvider exampleScorer ''__proto__'' ''text''
       = (Inr \<lparr> distribution = [Num 0, Num 0, Num 0, Num 0, Num 0], expectedScore = Num 0,
                entropy = Num 0, anchorSetCount = None \<rparr>, exampleScorer\<lparr>provider := 1\<rparr>)"
    using p e by (intro scoreAnswer_proto) (simp_all add: a)
  have o: "objectPrototype ''constructor'' = Some (InheritedFunction ''Object'' (Suc 0))"
    by (simp add: objectPrototype_def)
  have k: "anchorEmbeddingsCache exampleScorer (anchorCacheKey ''constructor'' 0) = None"
    by (simp add: exampleScorer_def defaultScorer_simps)
  have 2: "scoreAnswer constantProvider exampleScorer ''constructor'' ''text''
       = (Inl (NoAnchorSetFound ''constructor'' 0), exampleScorer\<lparr>provider := 1\<rparr>)"
    using c o e k by (intro scoreAnswer_inherited_function) (simp_all add: a)
  show ?thesis using a p c 1 2 by simp
qed

subsection \<open>Bounds of the expected score and of the entropy\<close>

lemma neg_xlnx_le:
  assumes "0 < x" "x \<le> 1"
  shows "- (x * ln x) \<le> 2 * sqrt x"
proof -
  have sx: "0 < sqrt x" using assms(1) by simp
  have "ln (1 / sqrt x) \<le> 1 / sqrt x - 1" using sx by (intro ln_le_minus_one) simp
  then have "- ln (sqrt x) \<le> 1 / sqrt x - 1" using sx by (simp add: ln_div)
  then have "- (ln x / 2) \<le> 1 / sqrt x - 1" using assms(1) by (simp add: ln_sqrt)
  then have "- ln x \<le> 2 / sqrt x - 2" by simp
  then have "x * (- ln x) \<le> x * (2 / sqrt x - 2)" using assms(1) by (intro mult_left_mono) simp_all
  also have "\<dots> = 2 * (x / sqrt x) - 2 * x" by (simp add: algebra_simps)
  also have "x / sqrt x = sqrt x" using assms(1) by (simp add: real_div_sqrt)
  finally show ?thesis using assms(1) by simp
qed

lemma shannonTerm_gibbs0:
  assumes "0 \<le> p" "0 < n"
  shows "- shannonTerm p \<le> p * log 2 n + (1 / n - p) / ln 2"
proof (cases "p = 0")
  case True
  then show ?thesis using assms(2) by (simp add: shannonTerm_def)
next
  case False
  then show ?thesis using assms by (intro shannonTerm_gibbs) simp_all
qed

lemma map_Num_nth: "length p = 5 \<Longrightarrow> map Num p = map (\<lambda>i. Num (p ! i)) [0..<5]"
  by (erule length_5E) (simp add: upt_0_5)

lemma distribution_bounds:
  assumes "isDistribution p"
  shows "\<exists>score h. expectedScoreOf (map Num p) = Num score \<and> 1 \<le> score \<and> score \<le> 5
            \<and> entropyOf (map Num p) = Num h \<and> 0 \<le> h \<and> h \<le> log 2 5"
proof -
  let ?f = "\<lambda>i. p ! i"
  have len: "length p = 5" and sum: "sum_list p = 1" and nn: "\<forall>i < 5. 0 \<le> ?f i"
    using assms by (simp_all add: isDistribution_def list_all_length)
  have m: "map Num p = map (\<lambda>i. Num (?f i)) [0..<5]" using len by (rule map_Num_nth)
  have s: "(\<Sum>i\<leftarrow>[0..<5]. ?f i) = 1" using sum sum_list_5[OF len] by simp
  have p: "0 \<le> ?f 0" "0 \<le> ?f 1" "0 \<le> ?f 2" "0 \<le> ?f 3" "0 \<le> ?f 4" using nn by simp_all
  have s': "?f 0 + ?f 1 + ?f 2 + ?f 3 + ?f 4 = 1" using s by (simp add: upt_0_5)
  have le1: "?f 0 \<le> 1" "?f 1 \<le> 1" "?f 2 \<le> 1" "?f 3 \<le> 1" "?f 4 \<le> 1"
    using p s' by linarith+
  have "shannonTerm (?f 0) \<le> 0" "shannonTerm (?f 1) \<le> 0" "shannonTerm (?f 2) \<le> 0"
    "shannonTerm (?f 3) \<le> 0" "shannonTerm (?f 4) \<le> 0"
    using p le1 by (simp_all add: shannonTerm_nonpos)
  then have h0: "0 \<le> - (\<Sum>i\<leftarrow>[0..<5]. shannonTerm (?f i))" by (simp add: upt_0_5)
  have g: "- shannonTerm (?f i) \<le> ?f i * log 2 5 + (1 / 5 - ?f i) / ln 2" if "i < 5" for i
    using shannonTerm_gibbs0[of "?f i" 5] nn that by simp
  have "- (\<Sum>i\<leftarrow>[0..<5]. shannonTerm (?f i))
        \<le> (?f 0 + ?f 1 + ?f 2 + ?f 3 + ?f 4) * log 2 5
            + (1 - (?f 0 + ?f 1 + ?f 2 + ?f 3 + ?f 4)) / ln 2"
    using g[of 0] g[of 1] g[of 2] g[of 3] g[of 4]
    by (simp add: upt_0_5 algebra_simps diff_divide_distrib add_divide_distrib)
  then have "- (\<Sum>i\<leftarrow>[0..<5]. shannonTerm (?f i)) \<le> 1 * log 2 5 + (1 - 1) / ln 2"
    unfolding s' .
  then have h1: "- (\<Sum>i\<leftarrow>[0..<5]. shannonTerm (?f i)) \<le> log 2 5" by simp
  have ex: "expectedScoreOf (map Num p) = Num (\<Sum>level\<leftarrow>[1..<6]. real level * ?f (level - 1))"
    unfolding m by (rule expectedScoreOf_Num)
  have en: "entropyOf (map Num p) = Num (- (\<Sum>i\<leftarrow>[0..<5]. shannonTerm (?f i)))"
    unfolding m using nn by (rule entropyOf_Num)
  show ?thesis
    using ex en expected_bounds[of ?f, OF nn s] h0 h1 by blast
qed

lemma entropy_near_one_hot:
  assumes d: "isDistribution p" and k: "k < 5" "1 - \<delta> \<le> p ! k" and \<delta>: "0 < \<delta>" "\<delta> \<le> 1 / 4"
  shows "\<exists>h. entropyOf (map Num p) = Num h \<and> h \<le> 10 * sqrt \<delta> / ln 2"
proof -
  let ?f = "\<lambda>i. p ! i"
  let ?B = "2 * sqrt \<delta> / ln 2"
  have len: "length p = 5" and sum: "sum_list p = 1" and nn: "\<forall>i < 5. 0 \<le> ?f i"
    using d by (simp_all add: isDistribution_def list_all_length)
  have m: "map Num p = map (\<lambda>i. Num (?f i)) [0..<5]" using len by (rule map_Num_nth)
  have s: "sum ?f {0..<5} = 1"
    using sum sum_list_5[OF len] by (simp add: interv_sum_list_conv_sum_set_nat)
  have d1: "\<delta> \<le> sqrt \<delta>"
  proof -
    have "\<delta> * \<delta> \<le> 1 * \<delta>" using \<delta> by (intro mult_right_mono) simp_all
    then have "\<delta>\<^sup>2 \<le> \<delta>" by (simp add: power2_eq_square)
    then show ?thesis by (rule real_le_rsqrt)
  qed
  have bound: "- shannonTerm (?f i) \<le> ?B" if i: "i < 5" for i
  proof (cases "i = k")
    case True
    have pk1: "3 / 4 \<le> ?f k" using k(2) \<delta>(2) by linarith
    have pk2: "?f k \<le> 1"
      using s nn k(1) sum_nonneg_leq_bound[of "{0..<5}" ?f 1 k] by simp
    note pk = pk1 pk2
    have pos: "0 < ?f k" using pk1 by linarith
    have "ln (1 / ?f k) \<le> 1 / ?f k - 1" using pos by (intro ln_le_minus_one) simp
    then have "- ln (?f k) \<le> (1 - ?f k) / ?f k" using pos by (simp add: ln_div field_simps)
    also have "\<dots> \<le> \<delta> / (3 / 4)"
      using pk k(2) \<delta>(1) by (intro frac_le) simp_all
    also have "\<dots> \<le> 2 * \<delta>" using \<delta>(1) by simp
    finally have a: "- ln (?f k) \<le> 2 * \<delta>" .
    have "0 \<le> - ln (?f k)" using pos pk(2) by simp
    then have "?f k * (- ln (?f k)) \<le> 1 * (- ln (?f k))"
      using pk(2) by (intro mult_right_mono) simp_all
    then have "- (?f k * ln (?f k)) \<le> 2 * sqrt \<delta>" using a d1 by simp
    then have "- (?f k * ln (?f k)) / ln 2 \<le> 2 * sqrt \<delta> / ln 2"
      by (intro divide_right_mono) simp_all
    then show ?thesis using pos True by (simp add: shannonTerm_def log_def)
  next
    case False
    have "sum ?f {i, k} \<le> sum ?f {0..<5}"
      using i k(1) nn by (intro sum_mono2) auto
    then have "?f i + ?f k \<le> 1" using False s by simp
    then have fi: "?f i \<le> \<delta>" using k(2) by linarith
    show ?thesis
    proof (cases "?f i = 0")
      case True
      then show ?thesis using \<delta>(1) by (simp add: shannonTerm_def)
    next
      case nz: False
      then have pos: "0 < ?f i" using nn i by (simp add: order_less_le)
      have "?f i \<le> 1" using fi \<delta>(2) by linarith
      then have "- (?f i * ln (?f i)) \<le> 2 * sqrt (?f i)" using pos by (intro neg_xlnx_le)
      also have "\<dots> \<le> 2 * sqrt \<delta>" using fi by simp
      finally have "- (?f i * ln (?f i)) / ln 2 \<le> 2 * sqrt \<delta> / ln 2"
        by (intro divide_right_mono) simp_all
      then show ?thesis using nz by (simp add: shannonTerm_def log_def)
    qed
  qed
  have "- (\<Sum>i\<leftarrow>[0..<5]. shannonTerm (?f i)) \<le> ?B + ?B + ?B + ?B + ?B"
    using bound[of 0] bound[of 1] bound[of 2] bound[of 3] bound[of 4]
    by (simp add: upt_0_5)
  also have "\<dots> = 10 * sqrt \<delta> / ln 2" by simp
  finally have "- (\<Sum>i\<leftarrow>[0..<5]. shannonTerm (?f i)) \<le> 10 * sqrt \<delta> / ln 2" .
  moreover have "entropyOf (map Num p) = Num (- (\<Sum>i\<leftarrow>[0..<5]. shannonTerm (?f i)))"
    unfolding m using nn by (rule entropyOf_Num)
  ultimately show ?thesis by blast
qed

lemma entropy_tends_to_zero:
  assumes "0 < \<epsilon>"
  shows "\<exists>\<delta>>0. \<forall>p k. isDistribution p \<and> k < 5 \<and> 1 - \<delta> \<le> p ! k
            \<longrightarrow> (\<exists>h. entropyOf (map Num p) = Num h \<and> h < \<epsilon>)"
proof -
  define c where "c = \<epsilon> * ln 2 / 20"
  define \<delta> where "\<delta> = min (1 / 4) (c * c)"
  have c: "0 < c" using assms by (simp add: c_def)
  have \<delta>: "0 < \<delta>" "\<delta> \<le> 1 / 4" "\<delta> \<le> c * c" using c by (simp_all add: \<delta>_def)
  have "\<delta> \<le> c\<^sup>2" using \<delta>(3) by (simp add: power2_eq_square)
  then have sq: "sqrt \<delta> \<le> c" using c by (intro real_le_lsqrt) simp_all
  have "10 * sqrt \<delta> / ln 2 \<le> 10 * c / ln 2"
    using sq by (intro divide_right_mono mult_left_mono) simp_all
  also have "\<dots> = \<epsilon> / 2" by (simp add: c_def)
  also have "\<dots> < \<epsilon>" using assms by simp
  finally have small: "10 * sqrt \<delta> / ln 2 < \<epsilon>" .
  have "\<exists>h. entropyOf (map Num p) = Num h \<and> h < \<epsilon>"
    if "isDistribution p" "k < 5" "1 - \<delta> \<le> p ! k" for p k
    using entropy_near_one_hot[OF that \<delta>(1,2)] small by force
  then show ?thesis using \<delta>(1) by blast
qed

lemma averageAt_isDistribution:
  assumes "ds \<noteq> []" "\<forall>p \<in> set ds. isPmf p"
  shows "isDistribution (map (averageAt ds) [0..<5])"
proof -
  have "\<forall>i < 5. 0 \<le> averageAt ds i"
    using averageAt_pos[OF assms] by (auto intro: less_imp_le)
  then have "list_all (\<lambda>x. 0 \<le> x) (map (averageAt ds) [0..<5])"
    by (simp add: list_all_iff)
  then show ?thesis using averageAt_sum[OF assms] by (simp add: isDistribution_def)
qed

text \<open>
  For a question type that the catalog defines, every result has its expected score in
  \<open>[1, 5]\<close> and its entropy in \<open>[0, log2 5]\<close>; so has every distribution over the five
  levels, the uniform distribution has the entropy \<open>log2 5\<close>, and the entropy tends to \<open>0\<close>
  as one probability tends to \<open>1\<close>.
\<close>

lemma scoreAnswer_bounds_own:
  assumes "conforming providerEmbed d" "cacheWellFormed this d"
    and "0 \<le> epsilon this" "0 < temperature this"
    and "anchorSets this questionType = Some sets"
    and "scoreAnswer providerEmbed this questionType freeTextAnswer = (Inr result, this')"
  shows "(\<exists>score h. expectedScore result = Num score \<and> 1 \<le> score \<and> score \<le> 5
            \<and> entropy result = Num h \<and> 0 \<le> h \<and> h \<le> log 2 5)
       \<and> (\<forall>p. isDistribution p \<longrightarrow>
             (\<exists>score h. expectedScoreOf (map Num p) = Num score \<and> 1 \<le> score \<and> score \<le> 5
                \<and> entropyOf (map Num p) = Num h \<and> 0 \<le> h \<and> h \<le> log 2 5))
       \<and> entropyOf (map Num [1 / 5, 1 / 5, 1 / 5, 1 / 5, 1 / 5]) = Num (log 2 5)
       \<and> (\<forall>\<epsilon>>0. \<exists>\<delta>>0. \<forall>p k. isDistribution p \<and> k < 5 \<and> 1 - \<delta> \<le> p ! k
             \<longrightarrow> (\<exists>h. entropyOf (map Num p) = Num h \<and> h < \<epsilon>))"
proof -
  have ne: "sets \<noteq> []"
    using assms(6) by (auto simp: scoreAnswer_own[OF assms(5)] split: if_splits)
  obtain ds this1 where
    r: "scoreAnswer providerEmbed this questionType freeTextAnswer =
       (Inr \<lparr>distribution = averageDistributions ds,
             expectedScore = expectedScoreOf (averageDistributions ds),
             entropy = entropyOf (averageDistributions ds),
             anchorSetCount = Some (length sets)\<rparr>, this1)"
    and len: "length ds = length sets" and pmf: "\<forall>p \<in> set ds. isPmf p"
    using scoreAnswer_ok[OF assms(1,2,5) ne assms(3,4), where ans = freeTextAnswer] by metis
  have l5: "\<forall>d \<in> set ds. length d = 5" using pmf by (simp add: isPmf_def)
  have ne': "ds \<noteq> []" using len ne by auto
  have avg: "averageDistributions ds = map Num (map (averageAt ds) [0..<5])"
    using averageDistributions_Num[OF l5] by simp
  have "\<exists>score h. expectedScoreOf (averageDistributions ds) = Num score \<and> 1 \<le> score \<and> score \<le> 5
            \<and> entropyOf (averageDistributions ds) = Num h \<and> 0 \<le> h \<and> h \<le> log 2 5"
    unfolding avg using averageAt_isDistribution[OF ne' pmf] by (rule distribution_bounds)
  moreover have "expectedScore result = expectedScoreOf (averageDistributions ds)"
    "entropy result = entropyOf (averageDistributions ds)"
    using r assms(6) by auto
  ultimately have first: "\<exists>score h. expectedScore result = Num score \<and> 1 \<le> score \<and> score \<le> 5
            \<and> entropy result = Num h \<and> 0 \<le> h \<and> h \<le> log 2 5"
    by simp
  show ?thesis
    using first distribution_bounds uniform_entropy entropy_tends_to_zero by blast
qed

text \<open>
  Claim C7.  The claim is that every result of \<^verbatim>\<open>scoreAnswer\<close> has its expected score in
  \<open>[1, 5]\<close> and its entropy in \<open>[0, log2 5]\<close>.  The scorer with the default catalog, the
  default epsilon and the default temperature returns for the question type \<^verbatim>\<open>__proto__\<close> a
  result whose distribution is five times \<open>0\<close>, which is no distribution, and whose
  expected score is \<open>0\<close>, below \<open>1\<close>.
\<close>

theorem scoreAnswer_proto_expected_score:
  "\<exists>result this'.
      scoreAnswer constantProvider exampleScorer ''__proto__'' ''text'' = (Inr result, this')
    \<and> epsilon exampleScorer = 1 / 10 ^ 8
    \<and> temperature exampleScorer = 1
    \<and> distribution result = map Num [0, 0, 0, 0, 0]
    \<and> \<not> isDistribution [0, 0, 0, 0, 0]
    \<and> expectedScore result = Num 0
    \<and> \<not> (\<exists>score. expectedScore result = Num score \<and> 1 \<le> score \<and> score \<le> 5)
    \<and> entropy result = Num 0
    \<and> anchorSetCount result = None"
proof -
  have a: "anchorSets exampleScorer ''__proto__'' = None"
    by (simp add: exampleScorer_def defaultScorer_simps DEFAULT_unknown)
  have e: "constantProvider [Some ''text''] (provider exampleScorer) = (Inr [[1, 0]], 1)"
    by (simp add: constantProvider_def exampleScorer_def defaultScorer_simps)
  have r: "scoreAnswer constantProvider exampleScorer ''__proto__'' ''text''
       = (Inr \<lparr> distribution = [Num 0, Num 0, Num 0, Num 0, Num 0], expectedScore = Num 0,
                entropy = Num 0, anchorSetCount = None \<rparr>, exampleScorer\<lparr>provider := 1\<rparr>)"
    using a e by (rule scoreAnswer_proto)
  show ?thesis
    unfolding r
    by (simp add: exampleScorer_def defaultScorer_simps isDistribution_def)
qed

section \<open>Properties of the batch\<close>

lemma numAdd_simps [simp]:
  "numAdd (Num x) (Num y) = Num (x + y)" "numAdd NaN b = NaN" "numAdd a NaN = NaN"
  by (auto simp: numAdd_def split: number.splits)

lemma numAdd_assoc: "numAdd (numAdd a b) c = numAdd a (numAdd b c)"
  by (cases a; cases b; cases c) simp_all

lemma numAdd_zero [simp]: "numAdd a (Num 0) = a"
  by (cases a) simp_all

lemma foldl_numAdd: "foldl numAdd a xs = numAdd a (numSum xs)"
  by (induction xs arbitrary: a) (simp_all add: numSum_def numAdd_assoc)

lemma numSum_Num: "numSum (map Num xs) = Num (sum_list xs)"
  by (induction xs) (simp_all add: numSum_def)

lemma arithmeticMean_Num:
  "arithmeticMean (map Num xs) = Num (sum_list xs / real (length xs))"
  by (simp add: arithmeticMean_def numSum_Num numDiv_def)

lemma scoreLoop_outcomes:
  "scoreLoop providerEmbed qtm entries (scorer, S, tE, tH) = (scorer', S', tE', tH')
   \<Longrightarrow> S' = fold (\<lambda>e. assignScore (fst (scoredEntry e)) (snd (scoredEntry e)))
              (succeeded (outcomes providerEmbed qtm scorer entries)) S
     \<and> tE' = foldl numAdd tE
              (map (\<lambda>(q, a, r). expectedScore r) (succeeded (outcomes providerEmbed qtm scorer entries)))
     \<and> tH' = foldl numAdd tH
              (map (\<lambda>(q, a, r). entropy r) (succeeded (outcomes providerEmbed qtm scorer entries)))"
proof (induction entries arbitrary: scorer S tE tH)
  case Nil
  then show ?case by simp
next
  case (Cons entry rest)
  obtain q a where entry: "entry = (q, a)" by (cases entry)
  obtain r scorer1 where r: "scoreAnswer providerEmbed scorer (resolveQuestionType qtm q) a = (r, scorer1)"
    by (cases "scoreAnswer providerEmbed scorer (resolveQuestionType qtm q) a")
  show ?case
  proof (cases r)
    case (Inl err)
    then show ?thesis using Cons.prems Cons.IH[of scorer1 S tE tH] entry r by simp
  next
    case (Inr result)
    then show ?thesis
      using Cons.prems entry r
        Cons.IH[of scorer1 "assignScore q (snd (scoredEntry (q, a, result))) S"
          "numAdd tE (expectedScore result)" "numAdd tH (entropy result)"]
      by (simp add: scoredEntry_def)
  qed
qed

lemma update_fresh: "k \<notin> fst ` set al \<Longrightarrow> AList.update k v al = al @ [(k, v)]"
  by (induction al) auto

lemma fold_update_fresh:
  "distinct (map fst kvs) \<Longrightarrow> fst ` set kvs \<inter> fst ` set S = {}
     \<Longrightarrow> fold (\<lambda>e. AList.update (fst e) (snd e)) kvs S = S @ kvs"
proof (induction kvs arbitrary: S)
  case Nil
  then show ?case by simp
next
  case (Cons kv kvs)
  have 1: "AList.update (fst kv) (snd kv) S = S @ [kv]"
    using Cons.prems(2) by (subst update_fresh) auto
  have "fold (\<lambda>e. AList.update (fst e) (snd e)) kvs (S @ [kv]) = (S @ [kv]) @ kvs"
    using Cons.prems by (intro Cons.IH) auto
  then show ?case using 1 by simp
qed

lemma fold_assignScore:
  "fold (\<lambda>e. assignScore (fst e) (snd e)) kvs S
     = fold (\<lambda>e. AList.update (fst e) (snd e)) (filter (\<lambda>e. fst e \<noteq> ''__proto__'') kvs) S"
  by (induction kvs arbitrary: S) (simp_all add: assignScore_def)

lemma succeeded_keys:
  "map fst (succeeded out) = map fst (filter (\<lambda>(q, a, r). \<not> isl r) out)"
  by (induction out rule: succeeded.induct) auto

lemma outcomes_keys: "map fst (outcomes providerEmbed qtm scorer entries) = map fst entries"
  by (induction entries arbitrary: scorer) (auto split: prod.splits)

lemma distinct_succeeded:
  assumes "distinct (map fst entries)"
  shows "distinct (map fst (map scoredEntry (succeeded (outcomes providerEmbed qtm scorer entries))))"
proof -
  let ?out = "outcomes providerEmbed qtm scorer entries"
  have "map fst (map scoredEntry (succeeded ?out)) = map fst (succeeded ?out)"
    by (simp add: scoredEntry_def comp_def split_def)
  moreover have "distinct (map fst (filter (\<lambda>(q, a, r). \<not> isl r) ?out))"
    using assms outcomes_keys[of providerEmbed qtm scorer entries]
    by (simp add: distinct_map_filter)
  ultimately show ?thesis by (simp add: succeeded_keys)
qed

text \<open>
  What \<^verbatim>\<open>scoreAllAnswers\<close> returns, for every mapping of answers: the scores are the
  questions that \<^verbatim>\<open>scoreAnswer\<close> scored, in order, but for the question \<^verbatim>\<open>__proto__\<close>; the
  count is the number of these scores; and the averages are the totals over all the
  questions that were scored, divided by that count.
\<close>

lemma scoreAllAnswers_summary_exactly:
  assumes "distinct (map fst freeTextAnswers)"
  shows
    "let ok = succeeded (outcomes providerEmbed questionTypeMapping
                 (newSsrScorer \<lparr> optProvider = providerState, optAnchorSets = None,
                                 optScorerEpsilon = None, optScorerTemperature = None \<rparr>)
                 freeTextAnswers);
         kept = filter (\<lambda>(questionId, answerText, result). questionId \<noteq> ''__proto__'') ok;
         r = fst (scoreAllAnswers providerEmbed freeTextAnswers providerState questionTypeMapping)
     in scores r = map scoredEntry kept
      \<and> questionCount (summary r) = length kept
      \<and> averageExpectedScore (summary r)
          = (if kept = [] then Num 0
             else numDiv (numSum (map (\<lambda>(questionId, answerText, result). expectedScore result) ok))
                    (Num (real (length kept))))
      \<and> averageEntropy (summary r)
          = (if kept = [] then Num 0
             else numDiv (numSum (map (\<lambda>(questionId, answerText, result). entropy result) ok))
                    (Num (real (length kept))))"
proof -
  let ?sc = "newSsrScorer \<lparr> optProvider = providerState, optAnchorSets = None,
                            optScorerEpsilon = None, optScorerTemperature = None \<rparr>"
  let ?ok = "succeeded (outcomes providerEmbed questionTypeMapping ?sc freeTextAnswers)"
  let ?kept = "filter (\<lambda>(questionId, answerText, result). questionId \<noteq> ''__proto__'') ?ok"
  obtain scorer' S' tE' tH' where
    loop: "scoreLoop providerEmbed questionTypeMapping freeTextAnswers (?sc, [], Num 0, Num 0)
             = (scorer', S', tE', tH')"
    by (metis prod_cases4)
  have S0: "S' = fold (\<lambda>e. assignScore (fst (scoredEntry e)) (snd (scoredEntry e))) ?ok []"
    and tE: "tE' = foldl numAdd (Num 0) (map (\<lambda>(q, a, r). expectedScore r) ?ok)"
    and tH: "tH' = foldl numAdd (Num 0) (map (\<lambda>(q, a, r). entropy r) ?ok)"
    using scoreLoop_outcomes[OF loop] by simp_all
  have f: "filter (\<lambda>e. fst e \<noteq> ''__proto__'') (map scoredEntry ?ok) = map scoredEntry ?kept"
    by (simp add: filter_map comp_def scoredEntry_def split_def)
  have d: "distinct (map fst (map scoredEntry ?kept))"
    using distinct_succeeded[OF assms, of providerEmbed questionTypeMapping ?sc]
    unfolding f[symmetric] by (simp add: distinct_map_filter)
  have "fold (\<lambda>e. assignScore (fst (scoredEntry e)) (snd (scoredEntry e))) ?ok []
          = fold (\<lambda>e. assignScore (fst e) (snd e)) (map scoredEntry ?ok) []"
    by (simp add: fold_map comp_def)
  also have "\<dots> = fold (\<lambda>e. AList.update (fst e) (snd e)) (map scoredEntry ?kept) []"
    unfolding fold_assignScore f ..
  also have "\<dots> = [] @ map scoredEntry ?kept"
    using d by (intro fold_update_fresh) simp_all
  finally have S: "S' = map scoredEntry ?kept" using S0 by simp
  have tE2: "tE' = numSum (map (\<lambda>(q, a, r). expectedScore r) ?ok)"
    unfolding tE foldl_numAdd by (cases "numSum (map (\<lambda>(q, a, r). expectedScore r) ?ok)") simp_all
  have tH2: "tH' = numSum (map (\<lambda>(q, a, r). entropy r) ?ok)"
    unfolding tH foldl_numAdd by (cases "numSum (map (\<lambda>(q, a, r). entropy r) ?ok)") simp_all
  have res: "fst (scoreAllAnswers providerEmbed freeTextAnswers providerState questionTypeMapping)
      = \<lparr> scores = S',
          summary = \<lparr> averageExpectedScore =
                        (if 0 < length S' then numDiv tE' (Num (real (length S'))) else Num 0),
                      averageEntropy =
                        (if 0 < length S' then numDiv tH' (Num (real (length S'))) else Num 0),
                      questionCount = length S' \<rparr> \<rparr>"
    using loop by (simp add: scoreAllAnswers_def Let_def)
  show ?thesis
    unfolding Let_def res by (simp add: S tE2 tH2)
qed

text \<open>
  When no question is named \<^verbatim>\<open>__proto__\<close>, the scores are exactly the questions that were
  scored, the averages are the arithmetic means over them, and the count is their number.
\<close>

lemma scoreAllAnswers_summary_plain:
  assumes "distinct (map fst freeTextAnswers)" "''__proto__'' \<notin> fst ` set freeTextAnswers"
  shows
    "let ok = succeeded (outcomes providerEmbed questionTypeMapping
                 (newSsrScorer \<lparr> optProvider = providerState, optAnchorSets = None,
                                 optScorerEpsilon = None, optScorerTemperature = None \<rparr>)
                 freeTextAnswers);
         r = fst (scoreAllAnswers providerEmbed freeTextAnswers providerState questionTypeMapping)
     in scores r = map scoredEntry ok
      \<and> questionCount (summary r) = length ok
      \<and> averageExpectedScore (summary r)
          = (if ok = [] then Num 0
             else arithmeticMean (map (\<lambda>(questionId, answerText, result). expectedScore result) ok))
      \<and> averageEntropy (summary r)
          = (if ok = [] then Num 0
             else arithmeticMean (map (\<lambda>(questionId, answerText, result). entropy result) ok))"
proof -
  let ?sc = "newSsrScorer \<lparr> optProvider = providerState, optAnchorSets = None,
                            optScorerEpsilon = None, optScorerTemperature = None \<rparr>"
  let ?out = "outcomes providerEmbed questionTypeMapping ?sc freeTextAnswers"
  let ?ok = "succeeded ?out"
  have "set (map fst ?ok) \<subseteq> set (map fst ?out)"
    unfolding succeeded_keys by auto
  then have "set (map fst ?ok) \<subseteq> fst ` set freeTextAnswers"
    unfolding outcomes_keys by simp
  then have "\<forall>e \<in> set ?ok. fst e \<noteq> ''__proto__''" using assms(2) by force
  then have kept: "filter (\<lambda>(questionId, answerText, result). questionId \<noteq> ''__proto__'') ?ok = ?ok"
    by (intro filter_True) auto
  show ?thesis
    using scoreAllAnswers_summary_exactly[OF assms(1), of providerEmbed questionTypeMapping
        providerState]
    unfolding Let_def kept by (simp add: arithmeticMean_def)
qed

text \<open>
  The scenario of the specification: of the answers \<open>ease\<close> and \<open>unknown_q\<close>, only \<open>ease\<close>
  is scored, and the count is \<open>1\<close>.
\<close>

lemma example_outcomes:
  "succeeded (outcomes constantProvider None exampleScorer
       [(''ease'', ''fine''), (''unknown_q'', ''text'')])
     = [(''ease'', ''fine'',
         \<lparr> distribution = map Num uniformDistribution, expectedScore = Num 3,
           entropy = Num (log 2 5), anchorSetCount = Some 6 \<rparr>)]"
proof -
  have c: "\<forall>k vs. anchorEmbeddingsCache exampleScorer k = Some vs
             \<longrightarrow> vs = map (\<lambda>t. [1, 0]) [1 ..< 6 :: nat]"
    by (simp add: exampleScorer_def defaultScorer_simps)
  have a: "anchorSets exampleScorer ''ease'' = Some easeAnchorSets" "0 \<le> epsilon exampleScorer"
    "temperature exampleScorer = 1"
    by (simp_all add: exampleScorer_def defaultScorer_simps DEFAULT_ease)
  obtain this' where
    r: "scoreAnswer constantProvider exampleScorer ''ease'' ''fine''
          = (Inr \<lparr> distribution = map Num uniformDistribution, expectedScore = Num 3,
                   entropy = Num (log 2 5), anchorSetCount = Some 6 \<rparr>, this')"
    and a': "anchorSets this' = anchorSets exampleScorer"
    using scoreAnswer_constant[OF c a(1) easeAnchorSets_length a(2,3), of "''fine''"] by blast
  have "anchorSets this' ''unknown_q'' = None"
    by (simp add: a' exampleScorer_def defaultScorer_simps DEFAULT_unknown)
  moreover have "objectPrototype ''unknown_q'' = None" by (simp add: objectPrototype_def)
  ultimately have "scoreAnswer constantProvider this' ''unknown_q'' ''text''
               = (Inl (UnknownQuestionType ''unknown_q''), this')"
    by (rule scoreAnswer_no_entry)
  then show ?thesis using r by (simp add: resolveQuestionType_def)
qed

lemma scoreAllAnswers_scenario:
  "map fst (scores (fst (scoreAllAnswers constantProvider
         [(''ease'', ''fine''), (''unknown_q'', ''text'')] 0 None))) = [''ease'']
   \<and> questionCount (summary (fst (scoreAllAnswers constantProvider
         [(''ease'', ''fine''), (''unknown_q'', ''text'')] 0 None))) = 1
   \<and> averageExpectedScore (summary (fst (scoreAllAnswers constantProvider
         [(''ease'', ''fine''), (''unknown_q'', ''text'')] 0 None))) = Num 3
   \<and> averageEntropy (summary (fst (scoreAllAnswers constantProvider
         [(''ease'', ''fine''), (''unknown_q'', ''text'')] 0 None))) = Num (log 2 5)"
proof -
  have d: "distinct (map fst [(''ease'', ''fine''), (''unknown_q'', ''text'')])" by simp
  have n: "''__proto__'' \<notin> fst ` set [(''ease'', ''fine''), (''unknown_q'', ''text'')]" by simp
  show ?thesis
    using scoreAllAnswers_summary_plain[OF d n, of constantProvider None 0]
    unfolding exampleScorer_def[symmetric] example_outcomes Let_def
    by (simp add: scoredEntry_def arithmeticMean_def numSum_def numDiv_def)
qed

lemma resolveQuestionType_own:
  "m questionId = Some questionType
     \<Longrightarrow> resolveQuestionType (Some m) questionId = questionType"
  by (simp add: resolveQuestionType_def)

lemma resolveQuestionType_plain:
  "m questionId = None \<Longrightarrow> objectPrototype questionId = None
     \<Longrightarrow> resolveQuestionType (Some m) questionId = questionId"
  by (simp add: resolveQuestionType_def)

lemma objectPrototype_ease: "objectPrototype ''ease'' = None"
  by (simp add: objectPrototype_def)

text \<open>
  Claim C3.  The claim is that the scores are exactly the questions that
  \<^verbatim>\<open>scoreAnswer\<close> scored, that the averages are the arithmetic means over them and that
  the count is their number.  For the answers \<^verbatim>\<open>{"__proto__": "safe", "ease": "fine"}\<close>
  with the mapping \<^verbatim>\<open>{"__proto__": "trust"}\<close> (both as \<^verbatim>\<open>JSON.parse\<close> gives them) both
  questions are scored, each with the expected score \<open>3\<close>; the scores hold the question
  \<^verbatim>\<open>ease\<close> only, the count is \<open>1\<close>, and the average of the expected score is \<open>6\<close>, the total
  of the two divided by \<open>1\<close>, where the arithmetic mean is \<open>3\<close>.
\<close>

theorem scoreAllAnswers_proto_question:
  "(let answers = [(''__proto__'', ''safe''), (''ease'', ''fine'')];
        mapping = Some [''__proto__'' \<mapsto> ''trust''];
        ok = succeeded (outcomes constantProvider mapping exampleScorer answers);
        r = fst (scoreAllAnswers constantProvider answers 0 mapping)
    in map fst ok = [''__proto__'', ''ease'']
     \<and> map (\<lambda>(questionId, answerText, result). expectedScore result) ok = [Num 3, Num 3]
     \<and> arithmeticMean (map (\<lambda>(questionId, answerText, result). expectedScore result) ok) = Num 3
     \<and> map fst (scores r) = [''ease'']
     \<and> questionCount (summary r) = 1
     \<and> averageExpectedScore (summary r) = Num 6
     \<and> averageEntropy (summary r) = Num (2 * log 2 5))"
proof -
  let ?M = "Some [''__proto__'' \<mapsto> ''trust'']"
  let ?A = "[(''__proto__'', ''safe''), (''ease'', ''fine'')]"
  let ?U = "\<lparr> distribution = map Num uniformDistribution, expectedScore = Num 3,
              entropy = Num (log 2 5), anchorSetCount = Some 6 \<rparr>"
  have c: "\<forall>k vs. anchorEmbeddingsCache exampleScorer k = Some vs
             \<longrightarrow> vs = map (\<lambda>t. [1, 0]) [1 ..< 6 :: nat]"
    by (simp add: exampleScorer_def defaultScorer_simps)
  have a: "anchorSets exampleScorer = DEFAULT_ANCHOR_SETS" "0 \<le> epsilon exampleScorer"
    "temperature exampleScorer = 1"
    by (simp_all add: exampleScorer_def defaultScorer_simps)
  have t: "anchorSets exampleScorer ''trust'' = Some trustAnchorSets"
    by (simp add: a DEFAULT_trust)
  obtain this1 where
    r1: "scoreAnswer constantProvider exampleScorer ''trust'' ''safe'' = (Inr ?U, this1)"
    and c1: "\<forall>k vs. anchorEmbeddingsCache this1 k = Some vs
               \<longrightarrow> vs = map (\<lambda>t. [1, 0]) [1 ..< 6 :: nat]"
    and a1: "anchorSets this1 = anchorSets exampleScorer" "epsilon this1 = epsilon exampleScorer"
      "temperature this1 = temperature exampleScorer"
    using scoreAnswer_constant[OF c t trustAnchorSets_length a(2,3), of "''safe''"] by blast
  have e: "anchorSets this1 ''ease'' = Some easeAnchorSets" by (simp add: a1 a DEFAULT_ease)
  have b: "0 \<le> epsilon this1" "temperature this1 = 1" using a1 a by simp_all
  obtain this2 where
    r2: "scoreAnswer constantProvider this1 ''ease'' ''fine'' = (Inr ?U, this2)"
    using scoreAnswer_constant[OF c1 e easeAnchorSets_length b, of "''fine''"] by blast
  have q1: "resolveQuestionType ?M ''__proto__'' = ''trust''"
    by (rule resolveQuestionType_own) simp
  have q2: "resolveQuestionType ?M ''ease'' = ''ease''"
    by (rule resolveQuestionType_plain) (simp_all add: objectPrototype_ease)
  have out: "succeeded (outcomes constantProvider ?M exampleScorer ?A)
               = [(''__proto__'', ''safe'', ?U), (''ease'', ''fine'', ?U)]"
    by (simp add: q1 q2 r1 r2)
  have loop: "scoreLoop constantProvider ?M ?A (exampleScorer, [], Num 0, Num 0)
      = (this2,
         [(''ease'', \<lparr> distribution = map Num uniformDistribution, expectedScore = Num 3,
                      entropy = Num (log 2 5), anchorSetCount = Some 6, answer = ''fine'' \<rparr>)],
         Num 6, Num (2 * log 2 5))"
    by (simp add: q1 q2 r1 r2 assignScore_def)
  have res: "fst (scoreAllAnswers constantProvider ?A 0 ?M)
      = \<lparr> scores =
            [(''ease'', \<lparr> distribution = map Num uniformDistribution, expectedScore = Num 3,
                         entropy = Num (log 2 5), anchorSetCount = Some 6, answer = ''fine'' \<rparr>)],
          summary = \<lparr> averageExpectedScore = Num 6, averageEntropy = Num (2 * log 2 5),
                      questionCount = 1 \<rparr> \<rparr>"
    unfolding scoreAllAnswers_def exampleScorer_def[symmetric] Let_def loop
    by (simp add: numDiv_def)
  show ?thesis
    unfolding Let_def out res by (simp add: arithmeticMean_def numSum_def numDiv_def)
qed

text \<open>
  A question whose question type is neither in the catalog nor a property of
  \<^verbatim>\<open>Object.prototype\<close> is never among the scores.
\<close>

lemma assignScore_keys:
  "questionId \<noteq> q \<Longrightarrow> questionId \<notin> fst ` set S
     \<Longrightarrow> questionId \<notin> fst ` set (assignScore q v S)"
  by (auto simp: assignScore_def dom_update)

lemma scoreLoop_excludes:
  assumes "anchorSets scorer (resolveQuestionType qtm questionId) = None"
    and "objectPrototype (resolveQuestionType qtm questionId) = None"
    and "questionId \<notin> fst ` set S"
  shows "questionId \<notin> fst ` set (fst (snd (scoreLoop providerEmbed qtm entries (scorer, S, tE, tH))))"
  using assms
proof (induction entries arbitrary: scorer S tE tH)
  case Nil
  then show ?case by simp
next
  case (Cons entry rest)
  obtain q a where entry: "entry = (q, a)" by (cases entry)
  obtain r scorer1 where r: "scoreAnswer providerEmbed scorer (resolveQuestionType qtm q) a = (r, scorer1)"
    by (cases "scoreAnswer providerEmbed scorer (resolveQuestionType qtm q) a")
  have a1: "anchorSets scorer1 (resolveQuestionType qtm questionId) = None"
    using scoreAnswer_anchorSets[OF r] Cons.prems(1) by simp
  show ?case
  proof (cases r)
    case (Inl err)
    then show ?thesis using entry r Cons.IH[OF a1 Cons.prems(2,3)] by simp
  next
    case (Inr result)
    have "q \<noteq> questionId"
    proof
      assume "q = questionId"
      then have "scoreAnswer providerEmbed scorer (resolveQuestionType qtm q) a
                   = (Inl (UnknownQuestionType (resolveQuestionType qtm q)), scorer)"
        using Cons.prems(1,2) by (simp add: scoreAnswer_no_entry)
      then show False using r Inr by simp
    qed
    then have "questionId \<notin> fst ` set (assignScore q v S)" for v
      using Cons.prems(3) by (intro assignScore_keys) auto
    then show ?thesis using entry r Inr Cons.IH[OF a1 Cons.prems(2)] by simp
  qed
qed

text \<open>
  \<^verbatim>\<open>scoreAllAnswers\<close> runs its loop on a scorer with the default catalog, the default
  epsilon and the default temperature, and takes no catalog; a question whose question
  type is neither \<open>ease\<close> nor \<open>trust\<close> nor a property of \<^verbatim>\<open>Object.prototype\<close> is never among
  the scores.
\<close>

lemma scoreAllAnswers_default_catalog_plain:
  assumes "resolveQuestionType questionTypeMapping questionId \<noteq> ''ease''"
    and "resolveQuestionType questionTypeMapping questionId \<noteq> ''trust''"
    and "objectPrototype (resolveQuestionType questionTypeMapping questionId) = None"
  shows "scores (fst (scoreAllAnswers providerEmbed freeTextAnswers providerState questionTypeMapping))
           = fst (snd (scoreLoop providerEmbed questionTypeMapping freeTextAnswers
                        (\<lparr> provider = providerState, anchorSets = DEFAULT_ANCHOR_SETS,
                            epsilon = 1 / 10 ^ 8, temperature = 1,
                            anchorEmbeddingsCache = Map.empty \<rparr>, [], Num 0, Num 0)))
       \<and> questionId \<notin> fst ` set (scores (fst (scoreAllAnswers providerEmbed freeTextAnswers
                                                  providerState questionTypeMapping)))"
proof -
  let ?sc = "\<lparr> provider = providerState, anchorSets = DEFAULT_ANCHOR_SETS,
               epsilon = 1 / 10 ^ 8, temperature = 1, anchorEmbeddingsCache = Map.empty \<rparr>"
  have new: "newSsrScorer \<lparr> optProvider = providerState, optAnchorSets = None,
                           optScorerEpsilon = None, optScorerTemperature = None \<rparr> = ?sc"
    by (simp add: newSsrScorer_def)
  have eq: "scores (fst (scoreAllAnswers providerEmbed freeTextAnswers providerState questionTypeMapping))
           = fst (snd (scoreLoop providerEmbed questionTypeMapping freeTextAnswers
                        (?sc, [], Num 0, Num 0)))"
    by (simp add: scoreAllAnswers_def new Let_def split: prod.splits)
  have "anchorSets ?sc (resolveQuestionType questionTypeMapping questionId) = None"
    using assms by (simp add: DEFAULT_unknown)
  then have "questionId \<notin> fst ` set (fst (snd (scoreLoop providerEmbed questionTypeMapping
                 freeTextAnswers (?sc, [], Num 0, Num 0))))"
    using assms(3) by (intro scoreLoop_excludes) simp_all
  then show ?thesis using eq by simp
qed

text \<open>
  Claim C10.  The claim is that every question whose question type (the mapping's value
  for its id, or else the id) is neither \<open>ease\<close> nor \<open>trust\<close> is excluded from the result of
  \<^verbatim>\<open>scoreAllAnswers\<close>.  For the answers \<^verbatim>\<open>{q1: "hello"}\<close> with the mapping
  \<^verbatim>\<open>{q1: "__proto__"}\<close> the question type of \<open>q1\<close> is \<^verbatim>\<open>__proto__\<close>, and \<open>q1\<close> is among the
  scores, with a distribution of five times \<open>0\<close>; the count is \<open>1\<close>.
\<close>

theorem scoreAllAnswers_proto_type:
  "(let mapping = Some [''q1'' \<mapsto> ''__proto__''];
        r = fst (scoreAllAnswers constantProvider [(''q1'', ''hello'')] 0 mapping)
    in resolveQuestionType mapping ''q1'' = ''__proto__''
     \<and> resolveQuestionType mapping ''q1'' \<noteq> ''ease''
     \<and> resolveQuestionType mapping ''q1'' \<noteq> ''trust''
     \<and> scores r
         = [(''q1'', \<lparr> distribution = [Num 0, Num 0, Num 0, Num 0, Num 0], expectedScore = Num 0,
                      entropy = Num 0, anchorSetCount = None, answer = ''hello'' \<rparr>)]
     \<and> questionCount (summary r) = 1
     \<and> averageExpectedScore (summary r) = Num 0
     \<and> averageEntropy (summary r) = Num 0)"
proof -
  let ?M = "Some [''q1'' \<mapsto> ''__proto__'']"
  have q: "resolveQuestionType ?M ''q1'' = ''__proto__''"
    by (rule resolveQuestionType_own) simp
  have a: "anchorSets exampleScorer ''__proto__'' = None"
    by (simp add: exampleScorer_def defaultScorer_simps DEFAULT_unknown)
  have e: "constantProvider [Some ''hello''] (provider exampleScorer) = (Inr [[1, 0]], 1)"
    by (simp add: constantProvider_def exampleScorer_def defaultScorer_simps)
  have r: "scoreAnswer constantProvider exampleScorer ''__proto__'' ''hello''
       = (Inr \<lparr> distribution = [Num 0, Num 0, Num 0, Num 0, Num 0], expectedScore = Num 0,
                entropy = Num 0, anchorSetCount = None \<rparr>, exampleScorer\<lparr>provider := 1\<rparr>)"
    using a e by (rule scoreAnswer_proto)
  have loop: "scoreLoop constantProvider ?M [(''q1'', ''hello'')] (exampleScorer, [], Num 0, Num 0)
      = (exampleScorer\<lparr>provider := 1\<rparr>,
         [(''q1'', \<lparr> distribution = [Num 0, Num 0, Num 0, Num 0, Num 0], expectedScore = Num 0,
                    entropy = Num 0, anchorSetCount = None, answer = ''hello'' \<rparr>)],
         Num 0, Num 0)"
    by (simp add: q r assignScore_def)
  have res: "fst (scoreAllAnswers constantProvider [(''q1'', ''hello'')] 0 ?M)
      = \<lparr> scores =
            [(''q1'', \<lparr> distribution = [Num 0, Num 0, Num 0, Num 0, Num 0], expectedScore = Num 0,
                       entropy = Num 0, anchorSetCount = None, answer = ''hello'' \<rparr>)],
          summary = \<lparr> averageExpectedScore = Num 0, averageEntropy = Num 0,
                      questionCount = 1 \<rparr> \<rparr>"
    unfolding scoreAllAnswers_def exampleScorer_def[symmetric] Let_def loop
    by (simp add: numDiv_def)
  show ?thesis
    unfolding Let_def res q by simp
qed

section \<open>Properties of the provider calls and of the caches\<close>

lemma counting_calls:
  "counting providerEmbed texts st = (r, st') \<Longrightarrow> snd st' = snd st @ [texts]"
  by (auto simp: counting_def split: prod.splits)

lemma getAnchorEmbeddings_calls:
  assumes "getAnchorEmbeddings (counting providerEmbed) this qt i = (r, this')"
    and "anchorSets this qt = Some sets" "i < length sets"
  shows "snd (provider this') = snd (provider this)
           @ (if anchorEmbeddingsCache this (anchorCacheKey qt i) = None
              then [map (sets ! i) [1, 2, 3, 4, 5]] else [])"
    and "\<forall>k. k \<noteq> anchorCacheKey qt i \<longrightarrow> anchorEmbeddingsCache this' k = anchorEmbeddingsCache this k"
    and "\<forall>k v. anchorEmbeddingsCache this k = Some v \<longrightarrow> anchorEmbeddingsCache this' k = Some v"
    and "\<forall>vs. r = Inr vs \<longrightarrow> anchorEmbeddingsCache this' (anchorCacheKey qt i) \<noteq> None"
proof -
  show "snd (provider this') = snd (provider this)
           @ (if anchorEmbeddingsCache this (anchorCacheKey qt i) = None
              then [map (sets ! i) [1, 2, 3, 4, 5]] else [])"
    using assms
    by (auto simp: getAnchorEmbeddings_def Let_def elemAt_def
        split: option.splits prod.splits sum.splits dest!: counting_calls)
  show "\<forall>k. k \<noteq> anchorCacheKey qt i \<longrightarrow> anchorEmbeddingsCache this' k = anchorEmbeddingsCache this k"
    using assms
    by (auto simp: getAnchorEmbeddings_def Let_def elemAt_def
        split: option.splits prod.splits sum.splits)
  show "\<forall>k v. anchorEmbeddingsCache this k = Some v \<longrightarrow> anchorEmbeddingsCache this' k = Some v"
    using assms
    by (auto simp: getAnchorEmbeddings_def Let_def elemAt_def
        split: option.splits prod.splits sum.splits)
  show "\<forall>vs. r = Inr vs \<longrightarrow> anchorEmbeddingsCache this' (anchorCacheKey qt i) \<noteq> None"
    using assms
    by (auto simp: getAnchorEmbeddings_def Let_def elemAt_def
        split: option.splits prod.splits sum.splits)
qed

lemma distributionsLoop_calls:
  assumes "distributionsLoop (counting providerEmbed) qt ae is this ds = (Inr ds', this')"
    and "anchorSets this qt = Some sets" "\<forall>i \<in> set is. i < length sets" "distinct is"
  shows "snd (provider this') = snd (provider this)
           @ map (\<lambda>i. map (sets ! i) [1, 2, 3, 4, 5])
               (filter (\<lambda>i. anchorEmbeddingsCache this (anchorCacheKey qt i) = None) is)
       \<and> (\<forall>i \<in> set is. anchorEmbeddingsCache this' (anchorCacheKey qt i) \<noteq> None)
       \<and> (\<forall>k v. anchorEmbeddingsCache this k = Some v \<longrightarrow> anchorEmbeddingsCache this' k = Some v)"
  using assms
proof (induction "is" arbitrary: this ds)
  case Nil
  then show ?case by simp
next
  case (Cons i rest)
  obtain g this1 where g: "getAnchorEmbeddings (counting providerEmbed) this qt i = (g, this1)"
    by (cases "getAnchorEmbeddings (counting providerEmbed) this qt i")
  obtain vs where vs: "g = Inr vs"
    using Cons.prems(1) g by (cases g) auto
  obtain sims where sims: "similarities ae vs = Inr sims"
    using Cons.prems(1) g vs by (cases "similarities ae vs") auto
  let ?pmf = "similarityToPmf sims
      (Some \<lparr>optEpsilon = Some (epsilon this1), optTemperature = Some (temperature this1)\<rparr>)"
  have rest: "distributionsLoop (counting providerEmbed) qt ae rest this1 (ds @ [?pmf]) = (Inr ds', this')"
    using Cons.prems(1) g vs sims by simp
  have i: "i < length sets" using Cons.prems(3) by simp
  note G = getAnchorEmbeddings_calls[OF g Cons.prems(2) i]
  have a1: "anchorSets this1 qt = Some sets"
    using getAnchorEmbeddings_anchorSets[OF g] Cons.prems(2) by simp
  have IH: "snd (provider this') = snd (provider this1)
           @ map (\<lambda>i. map (sets ! i) [1, 2, 3, 4, 5])
               (filter (\<lambda>i. anchorEmbeddingsCache this1 (anchorCacheKey qt i) = None) rest)
       \<and> (\<forall>i \<in> set rest. anchorEmbeddingsCache this' (anchorCacheKey qt i) \<noteq> None)
       \<and> (\<forall>k v. anchorEmbeddingsCache this1 k = Some v \<longrightarrow> anchorEmbeddingsCache this' k = Some v)"
    using Cons.IH[OF rest a1] Cons.prems(3,4) by simp
  have same: "anchorEmbeddingsCache this1 (anchorCacheKey qt j) = anchorEmbeddingsCache this (anchorCacheKey qt j)"
    if "j \<in> set rest" for j
  proof -
    have "j \<noteq> i" using that Cons.prems(4) by auto
    then have "anchorCacheKey qt j \<noteq> anchorCacheKey qt i" using anchorCacheKey_inj by blast
    then show ?thesis using G(2) by simp
  qed
  have f: "filter (\<lambda>j. anchorEmbeddingsCache this1 (anchorCacheKey qt j) = None) rest
         = filter (\<lambda>j. anchorEmbeddingsCache this (anchorCacheKey qt j) = None) rest"
    using same by (intro filter_cong) simp_all
  have i': "anchorEmbeddingsCache this' (anchorCacheKey qt i) \<noteq> None"
    using G(4) vs IH by auto
  show ?case
    using IH G(1) G(3) f i' by auto
qed

lemma distributionsLoop_all_cached:
  assumes "distributionsLoop providerEmbed qt ae is this ds = (r, this')"
    and "\<forall>i \<in> set is. anchorEmbeddingsCache this (anchorCacheKey qt i) \<noteq> None"
  shows "this' = this"
  using assms
proof (induction "is" arbitrary: ds)
  case Nil
  then show ?case by simp
next
  case (Cons i rest)
  obtain cached where c: "anchorEmbeddingsCache this (anchorCacheKey qt i) = Some cached"
    using Cons.prems(2) by auto
  have g: "getAnchorEmbeddings providerEmbed this qt i = (Inr cached, this)"
    using c by (simp add: getAnchorEmbeddings_def)
  show ?case
    using Cons.prems g Cons.IH by (auto split: sum.splits simp: Let_def)
qed

text \<open>
  Claim C8.  One call of \<^verbatim>\<open>scoreAnswer\<close> on a counting provider makes one call with the
  answer's text alone, then one call with the five statements of each anchor set whose key
  is not in the cache, in order.  A second call on the same scorer for the same question
  type makes one call, with the answer's text, and none for an anchor set.
\<close>

theorem scoreAnswer_provider_calls:
  assumes "scoreAnswer (counting providerEmbed) this questionType answer1 = (Inr result, this1)"
    and "anchorSets this questionType = Some sets"
    and "scoreAnswer (counting providerEmbed) this1 questionType answer2 = (r2, this2)"
  shows "snd (provider this1) = snd (provider this) @ [[Some answer1]]
           @ map (\<lambda>i. map (sets ! i) [1, 2, 3, 4, 5])
               (filter (\<lambda>i. anchorEmbeddingsCache this (anchorCacheKey questionType i) = None)
                  [0..<length sets])
       \<and> snd (provider this2) = snd (provider this1) @ [[Some answer2]]"
proof -
  have ne: "sets \<noteq> []"
    using assms(1) by (auto simp: scoreAnswer_own[OF assms(2)] split: if_splits)
  obtain vectors st1 where e: "counting providerEmbed [Some answer1] (provider this) = (Inr vectors, st1)"
    using assms(1) ne
    by (auto simp: scoreAnswer_own[OF assms(2)] split: prod.splits sum.splits)
  let ?thisA = "this\<lparr>provider := st1\<rparr>"
  obtain ds where loop: "distributionsLoop (counting providerEmbed) questionType (elemAt vectors 0)
                    [0..<length sets] ?thisA [] = (Inr ds, this1)"
    using assms(1) ne e
    by (auto simp: scoreAnswer_own[OF assms(2)] split: prod.splits sum.splits)
  have c1: "snd st1 = snd (provider this) @ [[Some answer1]]" using e by (rule counting_calls)
  have L: "snd (provider this1) = snd (provider ?thisA)
           @ map (\<lambda>i. map (sets ! i) [1, 2, 3, 4, 5])
               (filter (\<lambda>i. anchorEmbeddingsCache ?thisA (anchorCacheKey questionType i) = None)
                  [0..<length sets])
       \<and> (\<forall>i \<in> set [0..<length sets]. anchorEmbeddingsCache this1 (anchorCacheKey questionType i) \<noteq> None)
       \<and> (\<forall>k v. anchorEmbeddingsCache ?thisA k = Some v \<longrightarrow> anchorEmbeddingsCache this1 k = Some v)"
    using assms(2) by (intro distributionsLoop_calls[OF loop]) simp_all
  have first: "snd (provider this1) = snd (provider this) @ [[Some answer1]]
           @ map (\<lambda>i. map (sets ! i) [1, 2, 3, 4, 5])
               (filter (\<lambda>i. anchorEmbeddingsCache this (anchorCacheKey questionType i) = None)
                  [0..<length sets])"
    using L c1 by simp
  have cached: "\<forall>i \<in> set [0..<length sets].
      anchorEmbeddingsCache this1 (anchorCacheKey questionType i) \<noteq> None"
    using L by blast
  have a1: "anchorSets this1 questionType = Some sets"
    using scoreAnswer_anchorSets[OF assms(1)] assms(2) by simp
  obtain r st2 where e2: "counting providerEmbed [Some answer2] (provider this1) = (r, st2)"
    by (cases "counting providerEmbed [Some answer2] (provider this1)")
  have c2: "snd st2 = snd (provider this1) @ [[Some answer2]]" using e2 by (rule counting_calls)
  have "provider this2 = st2"
  proof (cases r)
    case (Inl msg)
    then show ?thesis using assms(3) ne e2 by (auto simp: scoreAnswer_own[OF a1])
  next
    case (Inr vectors2)
    let ?thisB = "this1\<lparr>provider := st2\<rparr>"
    obtain r' this' where loop2: "distributionsLoop (counting providerEmbed) questionType
        (elemAt vectors2 0) [0..<length sets] ?thisB [] = (r', this')"
      by (cases "distributionsLoop (counting providerEmbed) questionType
        (elemAt vectors2 0) [0..<length sets] ?thisB []")
    have "this' = ?thisB" using loop2 cached by (intro distributionsLoop_all_cached[OF loop2]) simp
    moreover have "this2 = this'"
      using assms(3) ne e2 Inr loop2
      by (auto simp: scoreAnswer_own[OF a1] split: sum.splits)
    ultimately show ?thesis by simp
  qed
  then show ?thesis using first c2 by simp
qed

lemma conforming_counting: "conforming providerEmbed d \<Longrightarrow> conforming (counting providerEmbed) d"
  unfolding conforming_def counting_def
proof (intro allI)
  fix texts and st :: "'a \<times> string option list list"
  assume c: "\<forall>texts p. \<exists>vectors p'. providerEmbed texts p = (Inr vectors, p')
               \<and> length vectors = length texts \<and> (\<forall>v \<in> set vectors. length v = d)"
  obtain p calls where st: "st = (p, calls)" by (cases st)
  obtain vectors p' where "providerEmbed texts p = (Inr vectors, p')"
    "length vectors = length texts" "\<forall>v \<in> set vectors. length v = d"
    using c by blast
  then show "\<exists>vectors p'. (case st of (p, calls) \<Rightarrow>
                 case providerEmbed texts p of (r, p') \<Rightarrow> (r, p', calls @ [texts]))
               = (Inr vectors, p')
             \<and> length vectors = length texts \<and> (\<forall>v \<in> set vectors. length v = d)"
    by (simp add: st)
qed

theorem scoreAnswer_provider_calls_witness:
  "\<exists>result this1 r2 this2.
      scoreAnswer (counting constantProvider) exampleCountingScorer ''ease'' ''fine''
        = (Inr result, this1)
    \<and> anchorSets exampleCountingScorer ''ease'' = Some easeAnchorSets
    \<and> scoreAnswer (counting constantProvider) this1 ''ease'' ''fine'' = (r2, this2)
    \<and> length (snd (provider this1)) = 7
    \<and> snd (provider this2) = snd (provider this1) @ [[Some ''fine'']]"
proof -
  have h1: "conforming (counting constantProvider) 2"
    using conforming_constantProvider by (rule conforming_counting)
  have h2: "cacheWellFormed exampleCountingScorer 2"
    unfolding exampleCountingScorer_def by (rule cacheWellFormed_new)
  have h3: "anchorSets exampleCountingScorer ''ease'' = Some easeAnchorSets"
    by (simp add: exampleCountingScorer_def defaultScorer_simps DEFAULT_ease)
  have h4: "easeAnchorSets \<noteq> []" using easeAnchorSets_length by auto
  have h5: "0 \<le> epsilon exampleCountingScorer"
    by (simp add: exampleCountingScorer_def defaultScorer_simps)
  have h6: "0 < temperature exampleCountingScorer"
    by (simp add: exampleCountingScorer_def defaultScorer_simps)
  obtain result this1 where
    r1: "scoreAnswer (counting constantProvider) exampleCountingScorer ''ease'' ''fine''
           = (Inr result, this1)"
    using scoreAnswer_ok[OF h1 h2 h3 h4 h5 h6, where ans = "''fine''"] by metis
  obtain r2 this2 where
    r2: "scoreAnswer (counting constantProvider) this1 ''ease'' ''fine'' = (r2, this2)"
    by (cases "scoreAnswer (counting constantProvider) this1 ''ease'' ''fine''")
  have empty: "anchorEmbeddingsCache exampleCountingScorer = Map.empty"
    "snd (provider exampleCountingScorer) = []"
    by (simp_all add: exampleCountingScorer_def defaultScorer_simps)
  have "length (snd (provider this1)) = 7
      \<and> snd (provider this2) = snd (provider this1) @ [[Some ''fine'']]"
    using scoreAnswer_provider_calls[OF r1 h3 r2]
    by (simp add: empty easeAnchorSets_length)
  then show ?thesis using r1 h3 r2 by blast
qed

lemma getAnchorEmbeddings_other_keys:
  "getAnchorEmbeddings providerEmbed this qt i = (r, this') \<Longrightarrow> k \<noteq> anchorCacheKey qt i
     \<Longrightarrow> anchorEmbeddingsCache this' k = anchorEmbeddingsCache this k"
  by (auto simp: getAnchorEmbeddings_def Let_def split: option.splits prod.splits sum.splits)

lemma lookup_fold:
  "n \<le> length texts \<Longrightarrow>
     fold (lookupStep c texts) [0..<n] (replicate (length texts) None, [], [])
       = (map (\<lambda>i. if i < n then c (texts ! i) else None) [0..<length texts],
          map ((!) texts) (filter (\<lambda>i. c (texts ! i) = None) [0..<n]),
          filter (\<lambda>i. c (texts ! i) = None) [0..<n])"
proof (induction n)
  case 0
  have "replicate (length texts) None = map (\<lambda>i. None) [0..<length texts]"
    by (simp add: map_replicate_const)
  then show ?case by simp
next
  case (Suc n)
  let ?res = "map (\<lambda>i. if i < n then c (texts ! i) else None) [0..<length texts]"
  have IH: "fold (lookupStep c texts) [0..<n] (replicate (length texts) None, [], [])
       = (?res, map ((!) texts) (filter (\<lambda>i. c (texts ! i) = None) [0..<n]),
          filter (\<lambda>i. c (texts ! i) = None) [0..<n])"
    using Suc by simp
  have n: "n < length texts" using Suc.prems by simp
  have unroll: "fold (lookupStep c texts) [0..<Suc n] (replicate (length texts) None, [], [])
      = lookupStep c texts n
          (?res, map ((!) texts) (filter (\<lambda>i. c (texts ! i) = None) [0..<n]),
           filter (\<lambda>i. c (texts ! i) = None) [0..<n])"
    by (simp only: upt_Suc_append[OF le0] fold_append comp_def fold_simps IH)
  show ?case
  proof (cases "c (texts ! n)")
    case None
    have "?res = map (\<lambda>i. if i < Suc n then c (texts ! i) else None) [0..<length texts]"
      using None by (auto simp: less_Suc_eq)
    then show ?thesis unfolding unroll using None by (simp add: lookupStep_def)
  next
    case (Some cached)
    have "?res[n := Some cached]
            = map (\<lambda>i. if i < Suc n then c (texts ! i) else None) [0..<length texts]"
      using Some n by (intro nth_equalityI) (auto simp: nth_list_update less_Suc_eq)
    then show ?thesis unfolding unroll using Some by (simp add: lookupStep_def)
  qed
qed

lemma store_fold_outside:
  "m \<le> length uI \<Longrightarrow> fold (storeStep uT uI embs) [0..<m] (c, results) = (c', results')
     \<Longrightarrow> length results' = length results
       \<and> (\<forall>i. i \<notin> set uI \<longrightarrow> results' ! i = results ! i)"
proof (induction m arbitrary: c' results')
  case 0
  then show ?case by simp
next
  case (Suc m)
  obtain c1 r1 where f: "fold (storeStep uT uI embs) [0..<m] (c, results) = (c1, r1)"
    by (cases "fold (storeStep uT uI embs) [0..<m] (c, results)")
  have IH: "length r1 = length results \<and> (\<forall>i. i \<notin> set uI \<longrightarrow> r1 ! i = results ! i)"
    using Suc.IH[OF _ f] Suc.prems(1) by simp
  have u: "fold (storeStep uT uI embs) [0..<Suc m] (c, results) = storeStep uT uI embs m (c1, r1)"
    by (simp only: upt_Suc_append[OF le0] fold_append comp_def fold_simps f)
  have "storeStep uT uI embs m (c1, r1) = (c', results')" using Suc.prems(2) unfolding u .
  then have step: "results' = r1[uI ! m := elemAt embs m]"
    by (simp add: storeStep_def Let_def)
  have "uI ! m \<in> set uI" using Suc.prems(1) by simp
  then have "r1[uI ! m := elemAt embs m] ! i = r1 ! i" if "i \<notin> set uI" for i
    using that by (intro nth_list_update_neq) auto
  then show ?case using IH step by simp
qed

lemma store_fold_agrees:
  assumes "m \<le> length uI" "uT = map ((!) texts) uI" "\<forall>i \<in> set uI. i < length results"
  shows "fold (storeStep uT uI (map g uT)) [0..<m] (c, results)
           = (\<lambda>t. if t \<in> set (take m uT) then Some (g t) else c t,
              map (\<lambda>i. if i \<in> set (take m uI) then Some (g (texts ! i)) else results ! i)
                [0..<length results])"
  using assms(1)
proof (induction m)
  case 0
  show ?case by (simp add: map_nth)
next
  case (Suc m)
  let ?c1 = "\<lambda>t. if t \<in> set (take m uT) then Some (g t) else c t"
  let ?r1 = "map (\<lambda>i. if i \<in> set (take m uI) then Some (g (texts ! i)) else results ! i)
                [0..<length results]"
  have f: "fold (storeStep uT uI (map g uT)) [0..<m] (c, results) = (?c1, ?r1)"
    using Suc by simp
  have m: "m < length uI" "m < length uT" using Suc.prems assms(2) by simp_all
  have u: "fold (storeStep uT uI (map g uT)) [0..<Suc m] (c, results)
             = storeStep uT uI (map g uT) m (?c1, ?r1)"
    by (simp only: upt_Suc_append[OF le0] fold_append comp_def fold_simps f)
  have tk: "set (take (Suc m) uT) = insert (uT ! m) (set (take m uT))"
    "set (take (Suc m) uI) = insert (uI ! m) (set (take m uI))"
    using m by (simp_all add: take_Suc_conv_app_nth)
  have um: "uT ! m = texts ! (uI ! m)" using m assms(2) by simp
  have c': "?c1(uT ! m := Some (g (uT ! m)))
              = (\<lambda>t. if t \<in> set (take (Suc m) uT) then Some (g t) else c t)"
    by (auto simp: tk fun_eq_iff)
  have lt: "uI ! m < length results" using m(1) assms(3) by simp
  have r': "?r1[uI ! m := Some (g (uT ! m))]
              = map (\<lambda>i. if i \<in> set (take (Suc m) uI) then Some (g (texts ! i)) else results ! i)
                  [0..<length results]"
    using lt by (intro nth_equalityI) (auto simp: tk nth_list_update um)
  show ?case
    unfolding u using m c' r' by (simp add: storeStep_def Let_def elemAt_def)
qed

lemma lookup_fold_full:
  "fold (lookupStep c texts) [0..<length texts] (replicate (length texts) None, [], [])
     = (map c texts,
        map ((!) texts) (filter (\<lambda>i. c (texts ! i) = None) [0..<length texts]),
        filter (\<lambda>i. c (texts ! i) = None) [0..<length texts])"
proof -
  have "map (\<lambda>i. if i < length texts then c (texts ! i) else None) [0..<length texts] = map c texts"
    by (intro nth_equalityI) simp_all
  then show ?thesis using lookup_fold[of "length texts" texts c] by simp
qed

lemma VoyageProvider_embed_hit:
  assumes "VoyageProvider_embed fetchEmbeddings this texts = (Inr results, this')"
    and "i < length texts" "cache this (texts ! i) = Some v"
  shows "results ! i = Some v"
proof -
  let ?c = "cache this"
  let ?uI = "filter (\<lambda>i. ?c (texts ! i) = None) [0..<length texts]"
  let ?uT = "map ((!) texts) ?uI"
  have i: "i \<notin> set ?uI" using assms(3) by simp
  have r0: "map ?c texts ! i = Some v" using assms(2,3) by simp
  show ?thesis
  proof (cases "0 < length ?uT")
    case False
    then have "results = map ?c texts"
      using assms(1) by (auto simp: VoyageProvider_embed_def lookup_fold_full)
    then show ?thesis using r0 by simp
  next
    case True
    obtain f w' where f: "fetchEmbeddings ?uT (backend this) = (f, w')"
      by (cases "fetchEmbeddings ?uT (backend this)")
    obtain embs where embs: "f = Inr embs"
      using assms(1) True f
      by (cases f) (auto simp: VoyageProvider_embed_def lookup_fold_full)
    obtain c' r' where st: "fold (storeStep ?uT ?uI embs) [0..<length ?uT] (?c, map ?c texts) = (c', r')"
      by (cases "fold (storeStep ?uT ?uI embs) [0..<length ?uT] (?c, map ?c texts)")
    have "results = r'"
      using assms(1) True f embs st
      by (simp add: VoyageProvider_embed_def lookup_fold_full del: length_map)
    moreover have "r' ! i = map ?c texts ! i"
      using store_fold_outside[OF _ st] i by simp
    ultimately show ?thesis using r0 by simp
  qed
qed

lemma VoyageProvider_embed_agrees:
  assumes "cacheAgrees (cache this) g"
    and "\<forall>ts. fst (fetchEmbeddings ts (backend this)) = Inr (map g ts)"
  shows "\<exists>this'. VoyageProvider_embed fetchEmbeddings this texts
                    = (Inr (map (\<lambda>t. Some (g t)) texts), this')
               \<and> cacheAgrees (cache this') g"
proof -
  let ?c = "cache this"
  let ?uI = "filter (\<lambda>i. ?c (texts ! i) = None) [0..<length texts]"
  let ?uT = "map ((!) texts) ?uI"
  have hit: "?c (texts ! i) = Some (g (texts ! i))" if "i < length texts" "i \<notin> set ?uI" for i
    using that assms(1) by (auto simp: cacheAgrees_def)
  show ?thesis
  proof (cases "0 < length ?uT")
    case False
    then have all: "\<forall>i < length texts. i \<notin> set ?uI" by (auto simp: filter_empty_conv)
    have "map ?c texts = map (\<lambda>t. Some (g t)) texts"
      using hit all by (intro nth_equalityI) simp_all
    then have "VoyageProvider_embed fetchEmbeddings this texts
                 = (Inr (map (\<lambda>t. Some (g t)) texts), this)"
      using False by (simp add: VoyageProvider_embed_def lookup_fold_full)
    then show ?thesis using assms(1) by blast
  next
    case True
    obtain w' where f: "fetchEmbeddings ?uT (backend this) = (Inr (map g ?uT), w')"
      using assms(2) by (metis prod.collapse)
    let ?c' = "\<lambda>t. if t \<in> set ?uT then Some (g t) else ?c t"
    let ?r' = "map (\<lambda>i. if i \<in> set ?uI then Some (g (texts ! i)) else map ?c texts ! i)
                 [0..<length texts]"
    have st: "fold (storeStep ?uT ?uI (map g ?uT)) [0..<length ?uT] (?c, map ?c texts) = (?c', ?r')"
      using store_fold_agrees[of "length ?uI" ?uI ?uT texts "map ?c texts" g ?c] by simp
    have r: "?r' = map (\<lambda>t. Some (g t)) texts"
      using hit by (intro nth_equalityI) auto
    have "VoyageProvider_embed fetchEmbeddings this texts
            = (Inr (map (\<lambda>t. Some (g t)) texts), this\<lparr>cache := ?c', backend := w'\<rparr>)"
      using True f st r
      by (simp add: VoyageProvider_embed_def lookup_fold_full del: length_map)
    moreover have "cacheAgrees ?c' g" using assms(1) by (auto simp: cacheAgrees_def)
    ultimately show ?thesis by auto
  qed
qed

text \<open>
  Claim C9.  The caches do not collide.  Two different pairs of a question type and an
  index have different keys, so storing the embeddings of one pair leaves the lookup of
  every other pair as it was (the catalog is a field of the scorer that no method writes).
  The provider's cache is keyed by the text: a text that is in the cache gets the vector
  stored under that very text, and when the backend's vector for a text is a function \<open>g\<close>
  of the text, every call returns \<open>g\<close> of each text and the cache still agrees with \<open>g\<close>.
\<close>

theorem caches_do_not_collide:
  "((questionType, i) \<noteq> (questionType', j)
      \<longrightarrow> anchorCacheKey questionType i \<noteq> anchorCacheKey questionType' j)
   \<and> ((questionType, i) \<noteq> (questionType', j)
        \<and> getAnchorEmbeddings providerEmbed scorer questionType i = (r, scorer')
      \<longrightarrow> anchorEmbeddingsCache scorer' (anchorCacheKey questionType' j)
            = anchorEmbeddingsCache scorer (anchorCacheKey questionType' j))
   \<and> (VoyageProvider_embed fetchEmbeddings this texts = (Inr results, this')
        \<and> k < length texts \<and> cache this (texts ! k) = Some v
      \<longrightarrow> results ! k = Some v)
   \<and> (cacheAgrees (cache this) g
        \<and> (\<forall>ts. fst (fetchEmbeddings ts (backend this)) = Inr (map g ts))
      \<longrightarrow> (\<exists>this''. VoyageProvider_embed fetchEmbeddings this texts
                        = (Inr (map (\<lambda>t. Some (g t)) texts), this'')
                   \<and> cacheAgrees (cache this'') g))"
proof (intro conjI impI)
  assume "(questionType, i) \<noteq> (questionType', j)"
  then show "anchorCacheKey questionType i \<noteq> anchorCacheKey questionType' j"
    using anchorCacheKey_inj by blast
next
  assume a: "(questionType, i) \<noteq> (questionType', j)
        \<and> getAnchorEmbeddings providerEmbed scorer questionType i = (r, scorer')"
  then have "anchorCacheKey questionType' j \<noteq> anchorCacheKey questionType i"
    using anchorCacheKey_inj by blast
  then show "anchorEmbeddingsCache scorer' (anchorCacheKey questionType' j)
            = anchorEmbeddingsCache scorer (anchorCacheKey questionType' j)"
    using a getAnchorEmbeddings_other_keys by blast
next
  assume "VoyageProvider_embed fetchEmbeddings this texts = (Inr results, this')
        \<and> k < length texts \<and> cache this (texts ! k) = Some v"
  then show "results ! k = Some v" using VoyageProvider_embed_hit by blast
next
  assume "cacheAgrees (cache this) g
        \<and> (\<forall>ts. fst (fetchEmbeddings ts (backend this)) = Inr (map g ts))"
  then show "\<exists>this''. VoyageProvider_embed fetchEmbeddings this texts
                        = (Inr (map (\<lambda>t. Some (g t)) texts), this'')
                   \<and> cacheAgrees (cache this'') g"
    using VoyageProvider_embed_agrees by blast
qed

theorem caches_do_not_collide_witness:
  "(''ease'', 1::nat) \<noteq> (''trust'', 1)
   \<and> anchorCacheKey ''ease'' 1 \<noteq> anchorCacheKey ''trust'' 1
   \<and> anchorEmbeddingsCache (snd (getAnchorEmbeddings constantProvider exampleScorer ''ease'' 1))
         (anchorCacheKey ''trust'' 1)
       = anchorEmbeddingsCache exampleScorer (anchorCacheKey ''trust'' 1)
   \<and> VoyageProvider_embed exampleFetch exampleVoyage [''a'', ''bc'']
       = (Inr [Some [1, 1], Some [2, 1]],
          snd (VoyageProvider_embed exampleFetch exampleVoyage [''a'', ''bc'']))
   \<and> (0::nat) < length [''a'', ''bc'']
   \<and> cache exampleVoyage ([''a'', ''bc''] ! 0) = Some [1, 1]
   \<and> [Some [1, 1], Some [2, 1 :: real]] ! 0 = Some [1, 1]
   \<and> cacheAgrees (cache exampleVoyage) exampleVector
   \<and> (\<forall>ts. fst (exampleFetch ts (backend exampleVoyage)) = Inr (map exampleVector ts))
   \<and> (\<exists>this''. VoyageProvider_embed exampleFetch exampleVoyage [''a'', ''bc'']
                   = (Inr (map (\<lambda>t. Some (exampleVector t)) [''a'', ''bc'']), this'')
              \<and> cacheAgrees (cache this'') exampleVector)"
proof -
  let ?g = "getAnchorEmbeddings constantProvider exampleScorer ''ease'' 1"
  let ?e = "VoyageProvider_embed exampleFetch exampleVoyage [''a'', ''bc'']"
  have h1: "(''ease'', 1::nat) \<noteq> (''trust'', 1)" by simp
  have h2: "?g = (fst ?g, snd ?g)" by simp
  have h4: "cacheAgrees (cache exampleVoyage) exampleVector"
    by (simp add: cacheAgrees_def exampleVoyage_def exampleVector_def)
  have h5: "\<forall>ts. fst (exampleFetch ts (backend exampleVoyage)) = Inr (map exampleVector ts)"
    by (simp add: exampleFetch_def)
  have "\<exists>this''. ?e = (Inr (map (\<lambda>t. Some (exampleVector t)) [''a'', ''bc'']), this'')
              \<and> cacheAgrees (cache this'') exampleVector"
    using h4 h5 by (rule VoyageProvider_embed_agrees)
  then have "fst ?e = Inr [Some [1, 1], Some [2, 1]]"
    by (auto simp: exampleVector_def)
  then have h3: "?e = (Inr [Some [1, 1], Some [2, 1]], snd ?e)"
    by (metis prod.collapse)
  have h6: "(0::nat) < length [''a'', ''bc'']" by simp
  have h7: "cache exampleVoyage ([''a'', ''bc''] ! 0) = Some [1, 1]"
    by (simp add: exampleVoyage_def)
  show ?thesis
    using h1 h2 h3 h4 h5 h6 h7
      caches_do_not_collide[where questionType = "''ease''" and i = 1
        and questionType' = "''trust''" and j = 1
        and providerEmbed = constantProvider and scorer = exampleScorer
        and r = "fst ?g" and scorer' = "snd ?g"
        and fetchEmbeddings = exampleFetch and this = exampleVoyage
        and texts = "[''a'', ''bc'']" and results = "[Some [1, 1], Some [2, 1]]"
        and this' = "snd ?e" and k = 0 and v = "[1, 1]" and g = exampleVector]
    by blast
qed

end
